theory Spec2Isabelle
  imports Main "HOL-Library.AList"
begin

section \<open>Python strings\<close>

text \<open>
  A \<open>str\<close> is the list of its characters; the model reads ASCII text, so the whitespace that
  \<open>str.strip()\<close> removes is the ASCII whitespace (space, tab, line feed, vertical tab, form
  feed, carriage return and the separators \<open>0x1C\<close> to \<open>0x1F\<close>). \<open>strip_chars\<close> is
  \<open>str.strip(chars)\<close>, \<open>split_on\<close> is \<open>str.split(sep)\<close> for a one-character separator (it
  keeps empty fields and never returns the empty list), \<open>contains p s\<close> is \<open>p in s\<close>.
\<close>

definition is_space :: "char \<Rightarrow> bool" where
  "is_space c = (c \<in> set [CHR '' '', CHR 0x09, CHR 0x0A, CHR 0x0B, CHR 0x0C, CHR 0x0D,
                          CHR 0x1C, CHR 0x1D, CHR 0x1E, CHR 0x1F])"

definition strip_chars :: "(char \<Rightarrow> bool) \<Rightarrow> string \<Rightarrow> string" where
  "strip_chars P s = rev (dropWhile P (rev (dropWhile P s)))"

definition strip :: "string \<Rightarrow> string" where
  "strip s = strip_chars is_space s"

fun split_on :: "char \<Rightarrow> string \<Rightarrow> string list" where
  "split_on sep [] = [[]]"
| "split_on sep (c # cs) =
     (if c = sep then [] # split_on sep cs
      else (case split_on sep cs of
              w # ws \<Rightarrow> (c # w) # ws
            | [] \<Rightarrow> [[c]]))"

definition startswith :: "string \<Rightarrow> string \<Rightarrow> bool" where
  "startswith s p = (take (length p) s = p)"

definition endswith :: "string \<Rightarrow> string \<Rightarrow> bool" where
  "endswith s p = (take (length p) (rev s) = rev p)"

fun contains :: "string \<Rightarrow> string \<Rightarrow> bool" where
  "contains pattern [] = (pattern = [])"
| "contains pattern (c # cs) = (startswith (c # cs) pattern \<or> contains pattern cs)"

section \<open>Python dictionaries\<close>

text \<open>
  A Python \<open>dict\<close> keeps its keys unique and in insertion order: an association list in
  which \<open>d[k] = v\<close> replaces the value in place when \<open>k\<close> is present and appends the
  pair otherwise. That is \<open>AList.update\<close>. \<open>d.update(other)\<close> stores the items of
  \<open>other\<close> one by one, in the order of \<open>other\<close>.
\<close>

type_synonym ('k, 'v) dict = "('k \<times> 'v) list"

definition dict_set :: "'k \<Rightarrow> 'v \<Rightarrow> ('k, 'v) dict \<Rightarrow> ('k, 'v) dict" where
  "dict_set k v d = AList.update k v d"

definition dict_update :: "('k, 'v) dict \<Rightarrow> ('k, 'v) dict \<Rightarrow> ('k, 'v) dict" where
  "dict_update d other = fold (\<lambda>(k, v) acc. dict_set k v acc) other d"

definition dict_keys :: "('k, 'v) dict \<Rightarrow> 'k list" where
  "dict_keys d = map fst d"

definition dict_get :: "('k, 'v) dict \<Rightarrow> 'k \<Rightarrow> 'v option" where
  "dict_get d k = map_of d k"

definition dict_has :: "('k, 'v) dict \<Rightarrow> 'k \<Rightarrow> bool" where
  "dict_has d k = (k \<in> set (dict_keys d))"

section \<open>Exceptions\<close>

text \<open>
  The exceptions the modelled code raises: the \<open>ValueError\<close> of a duplicate mapping (with the
  OrcaSlicer key, the PrusaSlicer key that claims it and the new key), \<open>AttributeError\<close> and
  \<open>IndexError\<close>.
\<close>

datatype error = ValueError string string string | AttributeError | IndexError

section \<open>converters/base.py: conversion results and converters\<close>

text \<open>
  \<open>ConversionResult\<close>: the converted settings (a dict from OrcaSlicer key to value) and
  the list of PrusaSlicer keys that need manual conversion. The values are Python's
  \<open>Any\<close>: the type parameter \<open>'v\<close>.
\<close>

record 'v ConversionResult =
  settings :: "(string, 'v) dict"
  needs_manual_conversion :: "string list"

definition new_result :: "'v ConversionResult" where
  "new_result = \<lparr>settings = [], needs_manual_conversion = []\<rparr>"

definition add_setting :: "'v ConversionResult \<Rightarrow> string \<Rightarrow> 'v \<Rightarrow> 'v ConversionResult" where
  "add_setting r k v = r\<lparr>settings := dict_set k v (settings r)\<rparr>"

definition mark_needs_conversion :: "'v ConversionResult \<Rightarrow> string \<Rightarrow> 'v ConversionResult" where
  "mark_needs_conversion r k = r\<lparr>needs_manual_conversion := needs_manual_conversion r @ [k]\<rparr>"

definition merge :: "'v ConversionResult \<Rightarrow> 'v ConversionResult \<Rightarrow> 'v ConversionResult" where
  "merge r other =
     \<lparr>settings = dict_update (settings r) (settings other),
      needs_manual_conversion = needs_manual_conversion r @ needs_manual_conversion other\<rparr>"

text \<open>
  The four converter classes behind \<open>BaseConverter\<close>. A value transform is optional
  (\<open>None\<close> in the source leaves the value as it is); a transform is a total function
  here, so a transform that raises is outside the model.
\<close>

datatype 'v converter =
    SimpleKeyConverter string string "('v \<Rightarrow> 'v) option"
  | MultiKeyConverter "string list" string "('v \<Rightarrow> 'v) option"
  | SplitConverter string "(string \<times> ('v \<Rightarrow> 'v)) list"
  | CustomConverter "string \<Rightarrow> 'v \<Rightarrow> bool" "string \<Rightarrow> 'v \<Rightarrow> 'v ConversionResult"

definition apply_transform :: "('v \<Rightarrow> 'v) option \<Rightarrow> 'v \<Rightarrow> 'v" where
  "apply_transform value_transform prusa_value =
     (case value_transform of None \<Rightarrow> prusa_value | Some f \<Rightarrow> f prusa_value)"

fun can_convert :: "'v converter \<Rightarrow> string \<Rightarrow> 'v \<Rightarrow> bool" where
  "can_convert (SimpleKeyConverter pk ok tr) prusa_key prusa_value = (prusa_key = pk)"
| "can_convert (MultiKeyConverter pks ok tr) prusa_key prusa_value = (prusa_key \<in> set pks)"
| "can_convert (SplitConverter pk conversions) prusa_key prusa_value = (prusa_key = pk)"
| "can_convert (CustomConverter can_convert_func convert_func) prusa_key prusa_value =
     can_convert_func prusa_key prusa_value"

fun convert :: "'v converter \<Rightarrow> string \<Rightarrow> 'v \<Rightarrow> 'v ConversionResult" where
  "convert (SimpleKeyConverter pk ok tr) prusa_key prusa_value =
     add_setting new_result ok (apply_transform tr prusa_value)"
| "convert (MultiKeyConverter pks ok tr) prusa_key prusa_value =
     add_setting new_result ok (apply_transform tr prusa_value)"
| "convert (SplitConverter pk conversions) prusa_key prusa_value =
     fold (\<lambda>(orca_key, value_func) result. add_setting result orca_key (value_func prusa_value))
       conversions new_result"
| "convert (CustomConverter can_convert_func convert_func) prusa_key prusa_value =
     convert_func prusa_key prusa_value"

section \<open>converters/base.py: the converter registry\<close>

text \<open>
  \<open>ConverterRegistry\<close>: the converters in registration order, the ignored keys, the
  claim table \<open>_orca_key_mappings\<close> (OrcaSlicer key to the PrusaSlicer key that claims
  it) and \<open>_mutually_exclusive_groups\<close> (OrcaSlicer key to the set of PrusaSlicer keys
  allowed to share it).
\<close>

record 'v registry =
  converters :: "'v converter list"
  ignored_keys :: "string set"
  orca_key_mappings :: "string \<rightharpoonup> string"
  mutually_exclusive_groups :: "string \<rightharpoonup> string set"

definition new_registry :: "'v registry" where
  "new_registry =
     \<lparr>converters = [], ignored_keys = {}, orca_key_mappings = Map.empty,
      mutually_exclusive_groups = Map.empty\<rparr>"

definition register :: "'v converter \<Rightarrow> 'v registry \<Rightarrow> 'v registry" where
  "register converter reg = reg\<lparr>converters := converters reg @ [converter]\<rparr>"

definition register_simple ::
  "string \<Rightarrow> string \<Rightarrow> ('v \<Rightarrow> 'v) option \<Rightarrow> 'v registry \<Rightarrow> error + 'v registry" where
  "register_simple prusa_key orca_key value_transform reg =
     (case orca_key_mappings reg orca_key of
        Some existing_prusa_key \<Rightarrow>
          if existing_prusa_key \<noteq> prusa_key then
            (case mutually_exclusive_groups reg orca_key of
               Some allowed_keys \<Rightarrow>
                 if prusa_key \<notin> allowed_keys
                 then Inl (ValueError orca_key existing_prusa_key prusa_key)
                 else Inr (register (SimpleKeyConverter prusa_key orca_key value_transform)
                        (reg\<lparr>orca_key_mappings := (orca_key_mappings reg)(orca_key \<mapsto> prusa_key)\<rparr>))
             | None \<Rightarrow> Inl (ValueError orca_key existing_prusa_key prusa_key))
          else Inr (register (SimpleKeyConverter prusa_key orca_key value_transform) reg)
      | None \<Rightarrow>
          Inr (register (SimpleKeyConverter prusa_key orca_key value_transform)
            (reg\<lparr>orca_key_mappings := (orca_key_mappings reg)(orca_key \<mapsto> prusa_key)\<rparr>)))"

definition register_multi ::
  "string list \<Rightarrow> string \<Rightarrow> ('v \<Rightarrow> 'v) option \<Rightarrow> 'v registry \<Rightarrow> 'v registry" where
  "register_multi prusa_keys orca_key value_transform reg =
     register (MultiKeyConverter prusa_keys orca_key value_transform) reg"

definition register_split ::
  "string \<Rightarrow> (string \<times> ('v \<Rightarrow> 'v)) list \<Rightarrow> 'v registry \<Rightarrow> 'v registry" where
  "register_split prusa_key conversions reg = register (SplitConverter prusa_key conversions) reg"

definition register_custom ::
  "(string \<Rightarrow> 'v \<Rightarrow> bool) \<Rightarrow> (string \<Rightarrow> 'v \<Rightarrow> 'v ConversionResult) \<Rightarrow> 'v registry \<Rightarrow> 'v registry" where
  "register_custom can_convert_func convert_func reg =
     register (CustomConverter can_convert_func convert_func) reg"

definition register_ignore :: "string list \<Rightarrow> 'v registry \<Rightarrow> 'v registry" where
  "register_ignore prusa_keys reg = reg\<lparr>ignored_keys := ignored_keys reg \<union> set prusa_keys\<rparr>"

definition register_mutually_exclusive :: "string \<Rightarrow> string list \<Rightarrow> 'v registry \<Rightarrow> 'v registry" where
  "register_mutually_exclusive orca_key prusa_keys reg =
     (case mutually_exclusive_groups reg orca_key of
        Some allowed_keys \<Rightarrow>
          reg\<lparr>mutually_exclusive_groups :=
            (mutually_exclusive_groups reg)(orca_key \<mapsto> allowed_keys \<union> set prusa_keys)\<rparr>
      | None \<Rightarrow>
          reg\<lparr>mutually_exclusive_groups :=
            (mutually_exclusive_groups reg)(orca_key \<mapsto> set prusa_keys)\<rparr>)"

text \<open>
  \<open>convert_setting\<close>: the loop over the converters carries the merged result and the flag
  \<open>found_converter\<close>.
\<close>

definition convert_step ::
  "string \<Rightarrow> 'v \<Rightarrow> 'v converter \<Rightarrow> 'v ConversionResult \<times> bool \<Rightarrow> 'v ConversionResult \<times> bool" where
  "convert_step prusa_key prusa_value converter st =
     (if can_convert converter prusa_key prusa_value
      then (merge (fst st) (convert converter prusa_key prusa_value), True)
      else st)"

definition convert_setting :: "'v registry \<Rightarrow> string \<Rightarrow> 'v \<Rightarrow> 'v ConversionResult" where
  "convert_setting reg prusa_key prusa_value =
     (if prusa_key \<in> ignored_keys reg then new_result
      else
        let st = fold (convert_step prusa_key prusa_value) (converters reg) (new_result, False);
            merged_result = fst st;
            found_converter = snd st
        in if \<not> found_converter then mark_needs_conversion merged_result prusa_key
           else merged_result)"

definition convert_dict :: "'v registry \<Rightarrow> (string, 'v) dict \<Rightarrow> (string, 'v) dict \<times> string list" where
  "convert_dict reg prusa_settings =
     fold (\<lambda>(key, val) (converted, needs_conversion).
             let result = convert_setting reg key val
             in (dict_update converted (settings result),
                 needs_conversion @ needs_manual_conversion result))
       prusa_settings ([], [])"

text \<open>\<open>get_reverse_mapping\<close>: the source keys of the Direct and Merge rules for a target key.\<close>

fun reverse_keys :: "string \<Rightarrow> 'v converter \<Rightarrow> string list" where
  "reverse_keys orca_key (SimpleKeyConverter pk ok tr) = (if ok = orca_key then [pk] else [])"
| "reverse_keys orca_key (MultiKeyConverter pks ok tr) = (if ok = orca_key then pks else [])"
| "reverse_keys orca_key (SplitConverter pk conversions) = []"
| "reverse_keys orca_key (CustomConverter can_convert_func convert_func) = []"

definition get_reverse_mapping :: "'v registry \<Rightarrow> string \<Rightarrow> string list" where
  "get_reverse_mapping reg orca_key = concat (map (reverse_keys orca_key) (converters reg))"

text \<open>The converters that \<open>convert_setting\<close> applies: those whose \<open>can_convert\<close> accepts the key.\<close>

definition matching_converters :: "'v registry \<Rightarrow> string \<Rightarrow> 'v \<Rightarrow> 'v converter list" where
  "matching_converters reg prusa_key prusa_value =
     filter (\<lambda>c. can_convert c prusa_key prusa_value) (converters reg)"

text \<open>
  Building a registry is a sequence of registration calls (as \<open>create_print_registry\<close> and its
  siblings in \<open>mapping_registry.py\<close> make them); the \<open>ValueError\<close> of \<open>register_simple\<close> is not
  caught there, so the first error ends the construction.
\<close>

fun direct_source :: "string \<Rightarrow> 'v converter \<Rightarrow> string list" where
  "direct_source orca_key (SimpleKeyConverter pk ok tr) = (if ok = orca_key then [pk] else [])"
| "direct_source orca_key (MultiKeyConverter pks ok tr) = []"
| "direct_source orca_key (SplitConverter pk conversions) = []"
| "direct_source orca_key (CustomConverter can_convert_func convert_func) = []"

definition direct_sources :: "'v registry \<Rightarrow> string \<Rightarrow> string list" where
  "direct_sources reg orca_key = concat (map (direct_source orca_key) (converters reg))"

definition allowed_keys_of :: "'v registry \<Rightarrow> string \<Rightarrow> string set" where
  "allowed_keys_of reg orca_key =
     (case mutually_exclusive_groups reg orca_key of None \<Rightarrow> {} | Some allowed_keys \<Rightarrow> allowed_keys)"

datatype 'v registration =
    RegisterSimple string string "('v \<Rightarrow> 'v) option"
  | RegisterMulti "string list" string "('v \<Rightarrow> 'v) option"
  | RegisterSplit string "(string \<times> ('v \<Rightarrow> 'v)) list"
  | RegisterCustom "string \<Rightarrow> 'v \<Rightarrow> bool" "string \<Rightarrow> 'v \<Rightarrow> 'v ConversionResult"
  | RegisterIgnore "string list"
  | RegisterMutuallyExclusive string "string list"

fun apply_registration :: "'v registration \<Rightarrow> 'v registry \<Rightarrow> error + 'v registry" where
  "apply_registration (RegisterSimple pk ok tr) reg = register_simple pk ok tr reg"
| "apply_registration (RegisterMulti pks ok tr) reg = Inr (register_multi pks ok tr reg)"
| "apply_registration (RegisterSplit pk conversions) reg = Inr (register_split pk conversions reg)"
| "apply_registration (RegisterCustom cf f) reg = Inr (register_custom cf f reg)"
| "apply_registration (RegisterIgnore pks) reg = Inr (register_ignore pks reg)"
| "apply_registration (RegisterMutuallyExclusive ok pks) reg =
     Inr (register_mutually_exclusive ok pks reg)"

fun apply_registrations :: "'v registration list \<Rightarrow> 'v registry \<Rightarrow> error + 'v registry" where
  "apply_registrations [] reg = Inr reg"
| "apply_registrations (r # rs) reg =
     (case apply_registration r reg of Inl e \<Rightarrow> Inl e | Inr reg' \<Rightarrow> apply_registrations rs reg')"

definition claims_consistent :: "'v registry \<Rightarrow> bool" where
  "claims_consistent reg =
     (\<forall>t. (\<forall>e. orca_key_mappings reg t = Some e \<longrightarrow> e \<in> set (direct_sources reg t))
        \<and> (direct_sources reg t \<noteq> [] \<longrightarrow> orca_key_mappings reg t \<noteq> None)
        \<and> (\<exists>first. \<forall>p \<in> set (direct_sources reg t). p = first \<or> p \<in> allowed_keys_of reg t))"

section \<open>compare_coreone_profiles.py: the section store and inheritance resolution\<close>

text \<open>
  \<open>ProfileParser\<close> keeps the file as a \<open>configparser.ConfigParser\<close> (no interpolation, keys
  case-preserved). The model is what the code reads from it: the section names in file order
  (\<open>config.sections()\<close>) and, for each section, its options in file order. The stores are
  those of a file without a \<open>[DEFAULT]\<close> section: \<open>'DEFAULT' in config\<close> is true all the same
  (\<open>in_config\<close>), and that section has no options. \<open>configparser\<close> refuses a repeated option
  in a section (\<open>well_formed\<close>).
\<close>

type_synonym ini_section = "(string, string) dict"
type_synonym config = "(string \<times> ini_section) list"

definition sections :: "config \<Rightarrow> string list" where
  "sections cfg = map fst cfg"

definition in_config :: "config \<Rightarrow> string \<Rightarrow> bool" where
  "in_config cfg name = (name = ''DEFAULT'' \<or> name \<in> set (sections cfg))"

definition section_items :: "config \<Rightarrow> string \<Rightarrow> ini_section" where
  "section_items cfg name = (case map_of cfg name of Some options \<Rightarrow> options | None \<Rightarrow> [])"

definition parent_names :: "string \<Rightarrow> string list" where
  "parent_names inherits_value = map strip (split_on CHR '';'' inherits_value)"

definition section_type :: "string \<Rightarrow> string" where
  "section_type current_section =
     (case split_on CHR '':'' current_section of w # ws \<Rightarrow> w | [] \<Rightarrow> [])"

definition find_full_name :: "config \<Rightarrow> string \<Rightarrow> string \<Rightarrow> string option" where
  "find_full_name cfg current_section parent_name =
     (if in_config cfg parent_name then Some parent_name
      else
        let candidate = section_type current_section @ '':'' @ parent_name
        in if in_config cfg candidate then Some candidate else None)"

definition is_wildcard :: "string \<Rightarrow> bool" where
  "is_wildcard parent_name = (startswith parent_name ''*'' \<and> endswith parent_name ''*'')"

definition parent_targets :: "config \<Rightarrow> string \<Rightarrow> string \<Rightarrow> string list" where
  "parent_targets cfg current_section parent_name =
     (if is_wildcard parent_name then
        let pattern = strip_chars (\<lambda>c. c = CHR ''*'') parent_name
        in filter (\<lambda>s. contains pattern s \<and> startswith s ''*'') (sections cfg)
      else
        (case find_full_name cfg current_section parent_name of
           Some full_name \<Rightarrow> if full_name \<noteq> [] then [full_name] else []
         | None \<Rightarrow> []))"

definition inherited_sections :: "config \<Rightarrow> string \<Rightarrow> string list" where
  "inherited_sections cfg current_section =
     (case map_of (section_items cfg current_section) ''inherits'' of
        Some inherits_value \<Rightarrow>
          concat (map (parent_targets cfg current_section) (parent_names inherits_value))
      | None \<Rightarrow> [])"

definition apply_settings ::
  "(string \<Rightarrow> string \<Rightarrow> 'a) \<Rightarrow> string \<Rightarrow> ini_section \<Rightarrow> (string, 'a) dict \<Rightarrow> (string, 'a) dict" where
  "apply_settings tag current_section items resolved =
     fold (\<lambda>(key, val) acc. if key \<noteq> ''inherits'' then dict_set key (tag current_section val) acc else acc)
       items resolved"

text \<open>
  \<open>resolve_profile\<close> and \<open>resolve_profile_with_source\<close> run the same nested function
  \<open>resolve_recursive\<close>, which updates the enclosing \<open>visited\<close> set and \<open>resolved\<close> dict; they
  differ in what is stored for a key (the value, or the value with its section), which is the
  parameter \<open>tag\<close>. The model passes the pair \<open>(visited, resolved)\<close> through the calls. The
  sections a parent name stands for (\<open>parent_targets\<close>: the matches of a wildcard, or the one
  section found for a plain name) depend on the store and the current section only, so the
  loop over the parent names and the loop over the matches inside it are one walk,
  \<open>resolve_each\<close>, over the sections of all parents in order (\<open>inherited_sections\<close>, which is
  also what \<open>get_inheritance_chain\<close> returns).
\<close>

function resolve_recursive ::
    "(string \<Rightarrow> string \<Rightarrow> 'a) \<Rightarrow> config \<Rightarrow> string \<Rightarrow> string set \<times> (string, 'a) dict
       \<Rightarrow> string set \<times> (string, 'a) dict"
  and resolve_each ::
    "(string \<Rightarrow> string \<Rightarrow> 'a) \<Rightarrow> config \<Rightarrow> string list \<Rightarrow> string set \<times> (string, 'a) dict
       \<Rightarrow> string set \<times> (string, 'a) dict"
where
  "resolve_recursive tag cfg current_section (visited, resolved) =
     (if current_section \<in> visited then (visited, resolved)
      else if \<not> in_config cfg current_section then (visited, resolved)
      else
        let st = resolve_each tag cfg (inherited_sections cfg current_section)
                   (insert current_section visited, resolved)
        in (fst st, apply_settings tag current_section (section_items cfg current_section) (snd st)))"
| "resolve_each tag cfg [] st = st"
| "resolve_each tag cfg (name # names) st =
     resolve_each tag cfg names (resolve_recursive tag cfg name st)"
  by pat_completeness auto

lemma visited_grows_dom:
  "resolve_recursive_resolve_each_dom (Inl (tag, cfg, current_section, st)) \<Longrightarrow>
     fst st \<subseteq> fst (resolve_recursive tag cfg current_section st)"
  "resolve_recursive_resolve_each_dom (Inr (tag, cfg, names, st)) \<Longrightarrow>
     fst st \<subseteq> fst (resolve_each tag cfg names st)"
proof (induct tag cfg current_section st and tag cfg names st
    rule: resolve_recursive_resolve_each.pinduct)
  case (1 tag cfg current_section visited resolved)
  then show ?case
    by (auto simp: resolve_recursive.psimps Let_def)
next
  case (2 tag cfg st)
  then show ?case by (simp add: resolve_each.psimps)
next
  case (3 tag cfg name names st)
  then show ?case by (auto simp: resolve_each.psimps)
qed

text \<open>
  The recursion ends because every call of \<open>resolve_recursive\<close> that goes on marks a section
  of the store that was not yet visited, and the visited set never shrinks.
\<close>

definition universe :: "config \<Rightarrow> string set" where
  "universe cfg = insert ''DEFAULT'' (set (sections cfg))"

definition unvisited :: "config \<Rightarrow> string set \<times> (string, 'a) dict \<Rightarrow> nat" where
  "unvisited cfg st = card (universe cfg - fst st)"

definition resolve_measure ::
  "(string \<Rightarrow> string \<Rightarrow> 'a) \<times> config \<times> string \<times> string set \<times> (string, 'a) dict +
   (string \<Rightarrow> string \<Rightarrow> 'a) \<times> config \<times> string list \<times> string set \<times> (string, 'a) dict
   \<Rightarrow> nat \<times> nat" where
  "resolve_measure x =
     (case x of
        Inl (tag, cfg, current_section, st) \<Rightarrow> (unvisited cfg st, 0)
      | Inr (tag, cfg, names, st) \<Rightarrow> (unvisited cfg st, Suc (length names)))"

lemma unvisited_insert:
  "in_config cfg name \<Longrightarrow> name \<notin> visited \<Longrightarrow>
   unvisited cfg (insert name visited, resolved) < unvisited cfg (visited, resolved)"
  unfolding unvisited_def
  by (intro psubset_card_mono) (auto simp: universe_def in_config_def)

lemma unvisited_mono:
  "fst st \<subseteq> fst st' \<Longrightarrow> unvisited cfg st' \<le> unvisited cfg st"
  unfolding unvisited_def
  by (intro card_mono) (auto simp: universe_def)

termination resolve_recursive
proof (relation "inv_image (less_than <*lex*> less_than) resolve_measure")
  show "wf (inv_image (less_than <*lex*> less_than)
     (resolve_measure :: (string \<Rightarrow> string \<Rightarrow> 'a) \<times> config \<times> string \<times> string set \<times> (string, 'a) dict +
   (string \<Rightarrow> string \<Rightarrow> 'a) \<times> config \<times> string list \<times> string set \<times> (string, 'a) dict
   \<Rightarrow> nat \<times> nat))"
    by (intro wf_inv_image wf_lex_prod wf_less_than)
next
  fix tag :: "string \<Rightarrow> string \<Rightarrow> 'a" and cfg current_section visited
    and resolved :: "(string, 'a) dict"
  assume "current_section \<notin> visited" "\<not> \<not> in_config cfg current_section"
  then show "(Inr (tag, cfg, inherited_sections cfg current_section,
                 insert current_section visited, resolved),
        Inl (tag, cfg, current_section, visited, resolved))
       \<in> inv_image (less_than <*lex*> less_than) resolve_measure"
    by (simp add: resolve_measure_def unvisited_insert)
next
  fix tag :: "string \<Rightarrow> string \<Rightarrow> 'a" and cfg name names
    and st :: "string set \<times> (string, 'a) dict"
  show "(Inl (tag, cfg, name, st), Inr (tag, cfg, name # names, st))
       \<in> inv_image (less_than <*lex*> less_than) resolve_measure"
    by (simp add: resolve_measure_def)
next
  fix tag :: "string \<Rightarrow> string \<Rightarrow> 'a" and cfg name names
    and st :: "string set \<times> (string, 'a) dict"
  assume "resolve_recursive_resolve_each_dom (Inl (tag, cfg, name, st))"
  then have "fst st \<subseteq> fst (resolve_recursive tag cfg name st)"
    by (rule visited_grows_dom)
  then have "unvisited cfg (resolve_recursive tag cfg name st) \<le> unvisited cfg st"
    by (rule unvisited_mono)
  then show "(Inr (tag, cfg, names, resolve_recursive tag cfg name st),
         Inr (tag, cfg, name # names, st))
       \<in> inv_image (less_than <*lex*> less_than) resolve_measure"
    by (auto simp: resolve_measure_def)
qed

declare resolve_recursive.simps [simp del]

definition resolve_profile :: "config \<Rightarrow> string \<Rightarrow> (string, string) dict" where
  "resolve_profile cfg section_name =
     (if \<not> in_config cfg section_name then []
      else snd (resolve_recursive (\<lambda>current_section val. val) cfg section_name ({}, [])))"

definition resolve_profile_with_source ::
  "config \<Rightarrow> string \<Rightarrow> (string, string \<times> string) dict" where
  "resolve_profile_with_source cfg section_name =
     (if \<not> in_config cfg section_name then []
      else snd (resolve_recursive (\<lambda>current_section val. (val, current_section)) cfg
                  section_name ({}, [])))"

definition get_direct_settings :: "config \<Rightarrow> string \<Rightarrow> (string, string) dict" where
  "get_direct_settings cfg section_name =
     (if \<not> in_config cfg section_name then []
      else filter (\<lambda>(k, v). k \<noteq> ''inherits'') (section_items cfg section_name))"

definition well_formed :: "config \<Rightarrow> bool" where
  "well_formed cfg = (\<forall>(name, items) \<in> set cfg. distinct (dict_keys items))"

definition get_inheritance_chain :: "config \<Rightarrow> string \<Rightarrow> string list" where
  "get_inheritance_chain cfg section_name =
     (if \<not> in_config cfg section_name then [] else inherited_sections cfg section_name)"

text \<open>The inheritance edges of a store: from a section to the sections of its chain.\<close>

definition inherits_from :: "config \<Rightarrow> (string \<times> string) set" where
  "inherits_from cfg = {(s, t). t \<in> set (inherited_sections cfg s)}"

section \<open>compare_coreone_profiles.py: comparing two generations\<close>

text \<open>
  \<open>str.upper()\<close> on ASCII text. \<open>get_coreone_sections\<close> keeps the sections of a type whose
  upper-cased name contains \<open>@COREONE\<close>.
\<close>

definition upper_char :: "char \<Rightarrow> char" where
  "upper_char c =
     (let n = (of_char c :: nat) in if 97 \<le> n \<and> n \<le> 122 then char_of (n - 32) else c)"

definition str_upper :: "string \<Rightarrow> string" where
  "str_upper s = map upper_char s"

definition get_sections_by_type :: "config \<Rightarrow> string \<Rightarrow> string list" where
  "get_sections_by_type cfg type_name =
     filter (\<lambda>s. startswith s (type_name @ '':'')) (sections cfg)"

definition get_coreone_sections :: "config \<Rightarrow> string \<Rightarrow> string list" where
  "get_coreone_sections cfg type_name =
     filter (\<lambda>s. contains ''@COREONE'' (str_upper s)) (get_sections_by_type cfg type_name)"

text \<open>
  \<open>build_inheritance_tree\<close>: the \<open>defaultdict(set)\<close> from a parent to the CORE One sections
  that name it in their inheritance chain. A set is kept as a list without repetition, in the
  order of insertion; a parent is a key only once it has a child, so \<open>current in children_map\<close>
  and a non-empty \<open>children_of\<close> agree.
\<close>

type_synonym children = "(string, string list) dict"

definition children_of :: "children \<Rightarrow> string \<Rightarrow> string list" where
  "children_of children_map name =
     (case map_of children_map name of None \<Rightarrow> [] | Some cs \<Rightarrow> cs)"

definition add_child :: "string \<Rightarrow> string \<Rightarrow> children \<Rightarrow> children" where
  "add_child section parent children_map =
     dict_set parent
       (if section \<in> set (children_of children_map parent) then children_of children_map parent
        else children_of children_map parent @ [section])
       children_map"

definition build_inheritance_tree :: "config \<Rightarrow> string \<Rightarrow> children" where
  "build_inheritance_tree cfg type_name =
     fold (\<lambda>section children_map.
             fold (add_child section) (get_inheritance_chain cfg section) children_map)
       (get_coreone_sections cfg type_name) []"

text \<open>
  \<open>get_all_descendants\<close>: the \<open>while to_visit\<close> loop. \<open>to_visit\<close> is a stack, its top at the
  head of the list (\<open>pop()\<close> takes the head, \<open>append\<close> puts one on). The loop ends because
  every round either finds a new descendant among the children recorded in the tree or leaves
  the stack one shorter.
\<close>

fun visit_children :: "string list \<Rightarrow> string set \<times> string list \<Rightarrow> string set \<times> string list" where
  "visit_children [] st = st"
| "visit_children (child # cs) (descendants, to_visit) =
     visit_children cs
       (if child \<notin> descendants then (insert child descendants, child # to_visit)
        else (descendants, to_visit))"

lemma visit_children_grows: "fst st \<subseteq> fst (visit_children cs st)"
proof (induction cs arbitrary: st)
  case Nil
  show ?case by simp
next
  case (Cons c cs)
  obtain d tv where st: "st = (d, tv)" by (cases st)
  from Cons [of "(insert c d, c # tv)"] Cons [of "(d, tv)"] show ?case
    by (auto simp: st)
qed

lemma visit_children_bound: "fst (visit_children cs st) \<subseteq> fst st \<union> set cs"
proof (induction cs arbitrary: st)
  case Nil
  show ?case by simp
next
  case (Cons c cs)
  obtain d tv where st: "st = (d, tv)" by (cases st)
  from Cons [of "(insert c d, c # tv)"] Cons [of "(d, tv)"] show ?case
    by (auto simp: st)
qed

lemma visit_children_same:
  "fst (visit_children cs st) = fst st \<Longrightarrow> visit_children cs st = st"
proof (induction cs arbitrary: st)
  case Nil
  show ?case by simp
next
  case (Cons c cs)
  obtain d tv where st: "st = (d, tv)" by (cases st)
  show ?case
  proof (cases "c \<in> d")
    case True
    with Cons show ?thesis by (simp add: st)
  next
    case False
    from visit_children_grows [of "(insert c d, c # tv)" cs]
    have "c \<in> fst (visit_children cs (insert c d, c # tv))" by auto
    with Cons.prems False show ?thesis by (simp add: st)
  qed
qed

definition candidates :: "children \<Rightarrow> string set" where
  "candidates children_map = set (concat (map snd children_map))"

lemma children_of_candidates: "set (children_of children_map name) \<subseteq> candidates children_map"
proof (cases "map_of children_map name")
  case None
  then show ?thesis by (simp add: children_of_def)
next
  case (Some cs)
  then have "(name, cs) \<in> set children_map" by (rule map_of_SomeD)
  then have "set cs \<subseteq> candidates children_map" by (force simp: candidates_def)
  with Some show ?thesis by (simp add: children_of_def)
qed

function descendants_loop :: "children \<Rightarrow> string list \<Rightarrow> string set \<Rightarrow> string set" where
  "descendants_loop children_map [] descendants = descendants"
| "descendants_loop children_map (current # to_visit) descendants =
     (let st = visit_children (children_of children_map current) (descendants, to_visit)
      in descendants_loop children_map (snd st) (fst st))"
  by pat_completeness auto
termination
proof (relation "inv_image (less_than <*lex*> less_than)
    (\<lambda>(children_map, to_visit, descendants).
       (card (candidates children_map - descendants), length to_visit))")
  show "wf (inv_image (less_than <*lex*> less_than)
    (\<lambda>(children_map, to_visit, descendants).
       (card (candidates children_map - descendants), length to_visit)))"
    by (intro wf_inv_image wf_lex_prod wf_less_than)
next
  fix children_map current to_visit descendants and st :: "string set \<times> string list"
  assume st: "st = visit_children (children_of children_map current) (descendants, to_visit)"
  have fin: "finite (candidates children_map)" by (simp add: candidates_def)
  have grows: "descendants \<subseteq> fst st"
    using visit_children_grows [of "(descendants, to_visit)"] by (simp add: st)
  have bound: "fst st \<subseteq> descendants \<union> candidates children_map"
    using visit_children_bound [of "children_of children_map current" "(descendants, to_visit)"]
      children_of_candidates [of children_map current]
    by (auto simp: st)
  show "((children_map, snd st, fst st), (children_map, current # to_visit, descendants))
       \<in> inv_image (less_than <*lex*> less_than)
    (\<lambda>(children_map, to_visit, descendants).
       (card (candidates children_map - descendants), length to_visit))"
  proof (cases "fst st = descendants")
    case True
    with visit_children_same [of "children_of children_map current" "(descendants, to_visit)"]
    have "st = (descendants, to_visit)" by (simp add: st)
    then show ?thesis by simp
  next
    case False
    with grows obtain x where x: "x \<in> fst st" "x \<notin> descendants" by auto
    with bound have "x \<in> candidates children_map" by auto
    with x grows have "candidates children_map - fst st \<subset> candidates children_map - descendants"
      by auto
    with fin have "card (candidates children_map - fst st) < card (candidates children_map - descendants)"
      by (intro psubset_card_mono) auto
    then show ?thesis by simp
  qed
qed

declare descendants_loop.simps(2) [simp del]

definition get_all_descendants :: "string \<Rightarrow> children \<Rightarrow> string set" where
  "get_all_descendants section children_map = descendants_loop children_map [section] {}"

text \<open>
  \<open>compare_profiles\<close>. An entry of \<open>added\<close> or \<open>removed\<close> holds the value, the source section
  and the \<open>direct\<close> flag; an entry of \<open>modified\<close> holds the old and the new line, their source
  sections and the flag. \<open>all_keys\<close> is a Python set, iterated in an order the language
  leaves open: the model takes the keys of the old profile, then the new ones. \<open>any(d)\<close> on a
  dict asks for a key that is not the empty string. The third test of the chain reads the two
  direct lines, which are there when both \<open>in\<close> tests hold. The sorted lists \<open>added_profiles\<close>,
  \<open>removed_profiles\<close> and \<open>affects\<close> are kept as the sets they list.
\<close>

type_synonym change_info = "string option \<times> string option \<times> bool"
type_synonym modify_info = "string \<times> string \<times> string option \<times> string option \<times> bool"

record profile_changes =
  added :: "(string, change_info) dict"
  removed :: "(string, change_info) dict"
  modified :: "(string, modify_info) dict"
  direct_changes :: "string set"

record changed_profile = profile_changes +
  affects :: "string set"

definition no_changes :: profile_changes where
  "no_changes = \<lparr>added = [], removed = [], modified = [], direct_changes = {}\<rparr>"

definition classify_key ::
  "(string, string \<times> string) dict \<Rightarrow> (string, string \<times> string) dict \<Rightarrow>
   (string, string) dict \<Rightarrow> (string, string) dict \<Rightarrow> string \<Rightarrow> profile_changes \<Rightarrow> profile_changes" where
  "classify_key old_profile new_profile old_direct new_direct key changes =
     (let old_val_source = dict_get old_profile key;
          new_val_source = dict_get new_profile key;
          old_val = map_option fst old_val_source;
          new_val = map_option fst new_val_source;
          old_source = map_option snd old_val_source;
          new_source = map_option snd new_val_source;
          in_old_direct = dict_has old_direct key;
          in_new_direct = dict_has new_direct key
      in if \<not> in_old_direct \<and> in_new_direct then
           changes\<lparr>added := dict_set key (new_val, new_source, True) (added changes),
                    direct_changes := insert key (direct_changes changes)\<rparr>
         else if in_old_direct \<and> \<not> in_new_direct then
           changes\<lparr>removed := dict_set key (old_val, old_source, True) (removed changes),
                    direct_changes := insert key (direct_changes changes)\<rparr>
         else
           (case (dict_get old_direct key, dict_get new_direct key) of
              (Some old_line, Some new_line) \<Rightarrow>
                if old_line \<noteq> new_line then
                  changes\<lparr>modified :=
                             dict_set key (old_line, new_line, old_source, new_source, True)
                               (modified changes),
                           direct_changes := insert key (direct_changes changes)\<rparr>
                else changes
            | _ \<Rightarrow> changes))"

definition all_keys :: "('k, 'a) dict \<Rightarrow> ('k, 'b) dict \<Rightarrow> 'k list" where
  "all_keys old_profile new_profile = remdups (dict_keys old_profile @ dict_keys new_profile)"

definition section_changes :: "config \<Rightarrow> config \<Rightarrow> string \<Rightarrow> profile_changes" where
  "section_changes old_cfg new_cfg section =
     (let old_profile = resolve_profile_with_source old_cfg section;
          new_profile = resolve_profile_with_source new_cfg section;
          old_direct = get_direct_settings old_cfg section;
          new_direct = get_direct_settings new_cfg section
      in fold (classify_key old_profile new_profile old_direct new_direct)
           (all_keys old_profile new_profile) no_changes)"

definition any_key :: "(string, 'a) dict \<Rightarrow> bool" where
  "any_key d = (\<exists>k \<in> set (dict_keys d). k \<noteq> [])"

definition has_changes :: "profile_changes \<Rightarrow> bool" where
  "has_changes changes = (any_key (added changes) \<or> any_key (removed changes) \<or> any_key (modified changes))"

record comparison =
  added_profiles :: "string set"
  removed_profiles :: "string set"
  changed_profiles :: "(string, changed_profile) dict"
  inheritance_tree :: children

definition compare_section ::
  "config \<Rightarrow> config \<Rightarrow> children \<Rightarrow> string \<Rightarrow> (string, changed_profile) dict
     \<Rightarrow> (string, changed_profile) dict" where
  "compare_section old_cfg new_cfg new_children section changes =
     (let profile_changes = section_changes old_cfg new_cfg section
      in if has_changes profile_changes then
           dict_set section
             \<lparr>added = added profile_changes, removed = removed profile_changes,
              modified = modified profile_changes,
              direct_changes = direct_changes profile_changes,
              affects = get_all_descendants section new_children\<rparr> changes
         else changes)"

definition compare_profiles :: "config \<Rightarrow> config \<Rightarrow> string \<Rightarrow> comparison" where
  "compare_profiles old_cfg new_cfg type_name =
     (let old_sections = get_coreone_sections old_cfg type_name;
          new_sections = get_coreone_sections new_cfg type_name;
          common = remdups (filter (\<lambda>s. s \<in> set new_sections) old_sections);
          new_children = build_inheritance_tree new_cfg type_name
      in \<lparr>added_profiles = set new_sections - set old_sections,
          removed_profiles = set old_sections - set new_sections,
          changed_profiles = fold (compare_section old_cfg new_cfg new_children) common [],
          inheritance_tree = new_children\<rparr>)"

definition change_keys :: "profile_changes \<Rightarrow> string set" where
  "change_keys changes =
     set (dict_keys (added changes)) \<union> set (dict_keys (removed changes))
     \<union> set (dict_keys (modified changes))"

section \<open>converters/profile_converters.py: inherited settings of a print profile\<close>

text \<open>
  A profile handed to the converters is a block of \<open>profile_parser.py\<close>: a dict whose values
  are strings, or lists of strings for \<open>default_materials\<close>. \<open>_resolve_inherited_settings\<close>
  calls itself for every parent found in \<open>all_profiles\<close> and has no guard against a parent that
  is being resolved already, so it need not return: the model counts the depth of the calls
  down from a fuel, and \<open>None\<close> is a call that did not return within the fuel. A call that
  raises returns \<open>Inl\<close>.
\<close>

datatype pvalue = Str string | StrList "string list"

type_synonym profile = "(string, pvalue) dict"

fun resolve_inherited_settings ::
    "nat \<Rightarrow> pvalue registry \<Rightarrow> (string, profile) dict \<Rightarrow> profile
       \<Rightarrow> (error + (string, pvalue) dict) option"
  and merge_parents ::
    "nat \<Rightarrow> pvalue registry \<Rightarrow> (string, profile) dict \<Rightarrow> string list
       \<Rightarrow> (string, pvalue) dict \<Rightarrow> (error + (string, pvalue) dict) option"
where
  "resolve_inherited_settings 0 reg all_profiles profile_data = None"
| "resolve_inherited_settings (Suc fuel) reg all_profiles profile_data =
     (case map_of profile_data ''inherits'' of
        None \<Rightarrow> Some (Inr [])
      | Some (StrList l) \<Rightarrow> Some (Inl AttributeError)
      | Some (Str inherits_str) \<Rightarrow>
          merge_parents fuel reg all_profiles
            (map strip (split_on CHR '';'' inherits_str)) [])"
| "merge_parents fuel reg all_profiles [] merged = Some (Inr merged)"
| "merge_parents fuel reg all_profiles (parent_name # parents) merged =
     (case map_of all_profiles parent_name of
        None \<Rightarrow> merge_parents fuel reg all_profiles parents merged
      | Some parent \<Rightarrow>
          (case resolve_inherited_settings fuel reg all_profiles parent of
             None \<Rightarrow> None
           | Some (Inl e) \<Rightarrow> Some (Inl e)
           | Some (Inr parent_settings) \<Rightarrow>
               merge_parents fuel reg all_profiles parents
                 (dict_update (dict_update merged parent_settings)
                    (fst (convert_dict reg parent)))))"

section \<open>profile_parser.py: the INI parser\<close>

text \<open>
  \<open>ProfileParser.parse\<close> reads the file line by line; the model takes the lines. The result maps
  \<open>vendor\<close> to one block and every other block type to the list of its blocks. A block is
  saved when the next header comes and at the end of the file.
\<close>

type_synonym block = "(string, pvalue) dict"

datatype entry = Block block | Blocks "block list"

record parse_state =
  parsed :: "(string, entry) dict"
  current_block :: block
  block_type :: "string option"

definition save_block :: "parse_state \<Rightarrow> error + (string, entry) dict" where
  "save_block st =
     (case block_type st of
        None \<Rightarrow> Inr (parsed st)
      | Some bt \<Rightarrow>
          if bt = ''vendor'' then Inr (dict_set ''vendor'' (Block (current_block st)) (parsed st))
          else
            (case map_of (parsed st) bt of
               None \<Rightarrow> Inr (dict_set bt (Blocks [current_block st]) (parsed st))
             | Some (Blocks bs) \<Rightarrow> Inr (dict_set bt (Blocks (bs @ [current_block st])) (parsed st))
             | Some (Block b) \<Rightarrow> Inl AttributeError))"

definition split_first :: "char \<Rightarrow> string \<Rightarrow> string \<times> string" where
  "split_first sep s = (takeWhile (\<lambda>c. c \<noteq> sep) s, tl (dropWhile (\<lambda>c. c \<noteq> sep) s))"

definition parse_line :: "string \<Rightarrow> parse_state \<Rightarrow> error + parse_state" where
  "parse_line raw st =
     (let line = strip raw in
      if startswith line '';'' \<or> startswith line ''#'' \<or> line = [] then Inr st
      else if startswith line ''['' \<and> endswith line '']'' then
        (case save_block st of
           Inl e \<Rightarrow> Inl e
         | Inr out \<Rightarrow>
             let st1 = (if block_type st \<noteq> None then st\<lparr>parsed := out, current_block := []\<rparr> else st)
             in if contains ''vendor'' line then Inr (st1\<lparr>block_type := Some ''vendor''\<rparr>)
                else
                  (case split_on CHR '':'' (butlast (tl line)) of
                     t # n # rest \<Rightarrow>
                       Inr (st1\<lparr>block_type := Some (strip t),
                                current_block := dict_set ''name'' (Str (strip n)) (current_block st1)\<rparr>)
                   | _ \<Rightarrow> Inl IndexError))
      else if CHR ''='' \<in> set line then
        let (key, val) = split_first CHR ''='' line;
            val = strip val;
            stored = (if strip key \<in> set [''default_materials'']
                      then StrList (map strip (split_on CHR '';'' val)) else Str val)
        in Inr (st\<lparr>current_block := dict_set (strip key) stored (current_block st)\<rparr>)
      else Inr st)"

fun parse_lines :: "string list \<Rightarrow> parse_state \<Rightarrow> error + parse_state" where
  "parse_lines [] st = Inr st"
| "parse_lines (line # lines) st =
     (case parse_line line st of Inl e \<Rightarrow> Inl e | Inr st' \<Rightarrow> parse_lines lines st')"

definition parse :: "string list \<Rightarrow> error + (string, entry) dict" where
  "parse lines =
     (case parse_lines lines \<lparr>parsed = [], current_block = [], block_type = None\<rparr> of
        Inl e \<Rightarrow> Inl e
      | Inr st \<Rightarrow> save_block st)"

section \<open>Example inputs\<close>

subsection \<open>Registries\<close>

definition fan_out_registry :: "string registry" where
  "fan_out_registry =
     register_custom (\<lambda>k v. k = ''layer_height'')
       (\<lambda>k v. \<lparr>settings = [(''initial_layer_print_height'', v), (''layer_height'', ''custom'')],
               needs_manual_conversion = []\<rparr>)
       (register_split ''perimeters'' [(''wall_loops'', \<lambda>v. v)]
          (register (SimpleKeyConverter ''layer_height'' ''layer_height'' None) new_registry))"

definition chamber_registrations :: "string registration list" where
  "chamber_registrations =
     [RegisterMutuallyExclusive ''chamber_temperature''
        [''chamber_temperature'', ''chamber_minimal_temperature''],
      RegisterSimple ''chamber_temperature'' ''chamber_temperature'' None,
      RegisterSimple ''chamber_minimal_temperature'' ''chamber_temperature'' None]"

definition chamber_registry :: "string registry" where
  "chamber_registry =
     \<lparr>converters =
        [SimpleKeyConverter ''chamber_temperature'' ''chamber_temperature'' None,
         SimpleKeyConverter ''chamber_minimal_temperature'' ''chamber_temperature'' None],
      ignored_keys = {},
      orca_key_mappings = [''chamber_temperature'' \<mapsto> ''chamber_minimal_temperature''],
      mutually_exclusive_groups =
        [''chamber_temperature'' \<mapsto> {''chamber_temperature'', ''chamber_minimal_temperature''}]\<rparr>"

definition chamber_registry_before :: "string registry" where
  "chamber_registry_before =
     \<lparr>converters = [SimpleKeyConverter ''chamber_temperature'' ''chamber_temperature'' None],
      ignored_keys = {},
      orca_key_mappings = [''chamber_temperature'' \<mapsto> ''chamber_temperature''],
      mutually_exclusive_groups =
        [''chamber_temperature'' \<mapsto> {''chamber_temperature'', ''chamber_minimal_temperature''}]\<rparr>"

definition simple_then_multi :: "string registry" where
  "simple_then_multi =
     \<lparr>converters =
        [SimpleKeyConverter ''perimeters'' ''wall_loops'' None,
         MultiKeyConverter [''loops''] ''wall_loops'' None],
      ignored_keys = {},
      orca_key_mappings = [''wall_loops'' \<mapsto> ''perimeters''],
      mutually_exclusive_groups = Map.empty\<rparr>"

definition report_registry :: "string registry" where
  "report_registry =
     \<lparr>converters = [SimpleKeyConverter ''layer_height'' ''layer_height'' None],
      ignored_keys = {''print_settings_id''},
      orca_key_mappings = [''layer_height'' \<mapsto> ''layer_height''],
      mutually_exclusive_groups = Map.empty\<rparr>"

definition report_settings :: "(string, string) dict" where
  "report_settings =
     [(''print_settings_id'', ''x''), (''unknown_key'', ''1''), (''layer_height'', ''0.2'')]"

definition speed_registry :: "string registry" where
  "speed_registry =
     \<lparr>converters = [SimpleKeyConverter ''max_print_speed'' ''max_speed'' None],
      ignored_keys = {},
      orca_key_mappings = [''max_print_speed'' \<mapsto> ''max_speed''],
      mutually_exclusive_groups = Map.empty\<rparr>"

subsection \<open>Stores, profiles and files\<close>

definition two_parents :: config where
  "two_parents =
     [(''print:A'', [(''layer_height'', ''0.1''), (''perimeters'', ''2'')]),
      (''print:B'', [(''layer_height'', ''0.2'')]),
      (''print:C'', [(''inherits'', ''A; B''), (''fill_density'', ''15%'')]),
      (''print:E'', [(''inherits'', ''A; B''), (''layer_height'', ''0.3'')])]"

definition parent_chain :: config where
  "parent_chain =
     [(''print:B'', [(''layer_height'', ''0.2'')]),
      (''print:A'', [(''inherits'', ''B''), (''layer_height'', ''0.1'')]),
      (''print:C'', [(''inherits'', ''A; B''), (''fill_density'', ''15%'')])]"

definition cyclic_profiles :: "(string, profile) dict" where
  "cyclic_profiles =
     [(''A'', [(''name'', Str ''A''), (''inherits'', Str ''B''), (''layer_height'', Str ''0.2'')]),
      (''B'', [(''name'', Str ''B''), (''inherits'', Str ''A''), (''perimeters'', Str ''2'')])]"

definition profile_A :: profile where
  "profile_A = [(''name'', Str ''A''), (''inherits'', Str ''B''), (''layer_height'', Str ''0.2'')]"

definition profile_B :: profile where
  "profile_B = [(''name'', Str ''B''), (''inherits'', Str ''A''), (''perimeters'', Str ''2'')]"

definition missing_parent :: config where
  "missing_parent =
     [(''print:A'', [(''layer_height'', ''0.1'')]),
      (''print:B'', [(''perimeters'', ''2'')]),
      (''print:C'', [(''inherits'', ''A; gone; B''), (''fill_density'', ''15%'')])]"

definition missing_parent_profiles :: "(string, profile) dict" where
  "missing_parent_profiles =
     [(''A'', [(''name'', Str ''A''), (''layer_height'', Str ''0.1'')]),
      (''B'', [(''name'', Str ''B''), (''perimeters'', Str ''2'')])]"

definition identity_registry :: "pvalue registry" where
  "identity_registry =
     \<lparr>converters =
        [SimpleKeyConverter ''layer_height'' ''layer_height'' None,
         SimpleKeyConverter ''perimeters'' ''wall_loops'' None],
      ignored_keys = {''name'', ''inherits''},
      orca_key_mappings = [''layer_height'' \<mapsto> ''layer_height'', ''wall_loops'' \<mapsto> ''perimeters''],
      mutually_exclusive_groups = Map.empty\<rparr>"

definition cyclic_store :: config where
  "cyclic_store =
     [(''print:A'', [(''inherits'', ''B''), (''layer_height'', ''0.2'')]),
      (''print:B'', [(''inherits'', ''A''), (''perimeters'', ''2'')])]"

definition child_lines :: "string list" where
  "child_lines =
     [''[print:base]'', ''layer_height = 0.2'',
      ''[print:child]'', ''inherits = base'', ''layer_height = 0.25'']"

definition generation_old :: config where
  "generation_old =
     [(''print:P @COREONE'', [(''x'', ''1'')]),
      (''print:Q @COREONE'', [(''inherits'', ''P @COREONE'')])]"

definition generation_new :: config where
  "generation_new =
     [(''print:P @COREONE'', [(''x'', ''2'')]),
      (''print:Q @COREONE'', [(''inherits'', ''P @COREONE'')])]"

section \<open>Facts about dictionaries\<close>

lemma map_of_dict_set: "map_of (dict_set k v d) = (map_of d)(k \<mapsto> v)"
  by (simp add: dict_set_def update_conv')

lemma keys_dict_set: "fst ` set (dict_set k v d) = insert k (fst ` set d)"
  by (simp add: dict_set_def dom_update)

lemma distinct_dict_set: "distinct (map fst d) \<Longrightarrow> distinct (map fst (dict_set k v d))"
  by (simp add: dict_set_def distinct_update)

lemma dict_update_Nil: "dict_update d [] = d"
  by (simp add: dict_update_def)

lemma dict_update_Cons: "dict_update d ((k, v) # other) = dict_update (dict_set k v d) other"
  by (simp add: dict_update_def)

lemma map_of_dict_update:
  "distinct (map fst other) \<Longrightarrow> map_of (dict_update d other) = map_of d ++ map_of other"
proof (induction other arbitrary: d)
  case Nil
  show ?case by (simp add: dict_update_Nil)
next
  case (Cons kv other)
  obtain k v where kv: "kv = (k, v)" by (cases kv)
  from Cons.prems kv have fresh: "map_of other k = None" and dist: "distinct (map fst other)"
    by (auto simp: map_of_eq_None_iff)
  have "map_of (dict_update d (kv # other)) = map_of (dict_set k v d) ++ map_of other"
    unfolding kv dict_update_Cons by (rule Cons.IH [OF dist])
  also have "\<dots> = map_of d ++ map_of (kv # other)"
    using fresh by (auto simp: kv map_of_dict_set map_add_def fun_eq_iff split: option.splits)
  finally show ?case .
qed

lemma keys_dict_update: "fst ` set (dict_update d other) = fst ` set d \<union> fst ` set other"
  unfolding dict_update_def
  by (induction other arbitrary: d) (simp_all add: keys_dict_set case_prod_unfold)

lemma distinct_dict_update: "distinct (map fst d) \<Longrightarrow> distinct (map fst (dict_update d other))"
  unfolding dict_update_def
  by (induction other arbitrary: d) (auto simp: distinct_dict_set)

lemma keys_fold_dict_update:
  "fst ` set (fold (\<lambda>x d. dict_update d (f x)) xs d0) =
     fst ` set d0 \<union> (\<Union>x \<in> set xs. fst ` set (f x))"
  by (induction xs arbitrary: d0) (auto simp: keys_dict_update)

section \<open>Facts about the converter registry\<close>

subsection \<open>Conversion\<close>

lemma fold_convert_step:
  "fold (convert_step k v) cs (r, b) =
     (fold (\<lambda>c acc. merge acc (convert c k v)) (filter (\<lambda>c. can_convert c k v) cs) r,
      b \<or> filter (\<lambda>c. can_convert c k v) cs \<noteq> [])"
  by (induction cs arbitrary: r b) (auto simp: convert_step_def)

lemma settings_fold_merge:
  "settings (fold (\<lambda>c acc. merge acc (convert c k v)) cs r) =
     fold (\<lambda>c d. dict_update d (settings (convert c k v))) cs (settings r)"
  by (induction cs arbitrary: r) (simp_all add: merge_def)

lemma map_of_fold_dict_update:
  "\<forall>x \<in> set xs. distinct (map fst (f x)) \<Longrightarrow>
   map_of (fold (\<lambda>x d. dict_update d (f x)) xs d0) =
     foldl (++) (map_of d0) (map (\<lambda>x. map_of (f x)) xs)"
  by (induction xs arbitrary: d0) (simp_all add: map_of_dict_update)

lemma keys_fold_merge:
  "fst ` set (settings (fold (\<lambda>c acc. merge acc (convert c k v)) cs r)) =
     fst ` set (settings r) \<union> (\<Union>c \<in> set cs. fst ` set (settings (convert c k v)))"
  by (induction cs arbitrary: r) (auto simp: merge_def keys_dict_update)

lemma needs_fold_merge:
  "needs_manual_conversion (fold (\<lambda>c acc. merge acc (convert c k v)) cs r) =
     needs_manual_conversion r @ concat (map (\<lambda>c. needs_manual_conversion (convert c k v)) cs)"
  by (induction cs arbitrary: r) (simp_all add: merge_def)

lemma convert_setting_not_ignored:
  assumes "k \<notin> ignored_keys reg"
  shows "convert_setting reg k v =
     (let merged = fold (\<lambda>c acc. merge acc (convert c k v)) (matching_converters reg k v) new_result
      in if matching_converters reg k v = [] then mark_needs_conversion merged k else merged)"
  using assms
  by (simp add: convert_setting_def fold_convert_step matching_converters_def Let_def)

lemma distinct_fold_dict_update:
  "distinct (map fst d0) \<Longrightarrow> distinct (map fst (fold (\<lambda>x d. dict_update d (f x)) xs d0))"
  by (induction xs arbitrary: d0) (simp_all add: distinct_dict_update)

lemma settings_convert_setting:
  assumes "k \<notin> ignored_keys reg"
  shows "settings (convert_setting reg k v) =
     fold (\<lambda>c d. dict_update d (settings (convert c k v))) (matching_converters reg k v) []"
  using assms
  by (simp add: convert_setting_not_ignored Let_def settings_fold_merge
      mark_needs_conversion_def new_result_def)

lemma needs_convert_setting:
  assumes "k \<notin> ignored_keys reg"
  shows "needs_manual_conversion (convert_setting reg k v) =
     concat (map (\<lambda>c. needs_manual_conversion (convert c k v)) (matching_converters reg k v))
     @ (if matching_converters reg k v = [] then [k] else [])"
  using assms
  by (simp add: convert_setting_not_ignored Let_def needs_fold_merge
      mark_needs_conversion_def new_result_def)

text \<open>
  Claim C4. For a key that is not ignored, \<open>convert_setting\<close> applies every registered
  converter whose \<open>can_convert\<close> accepts the key, in registration order, and merges the
  results with \<open>dict.update\<close>: the target keys of the result are the union of the target
  keys of all matching converters, and (the results being dicts) a later converter's value
  replaces an earlier one's for the same target key.
\<close>

theorem convert_setting_fan_out:
  assumes "prusa_key \<notin> ignored_keys reg"
  shows
    "settings (convert_setting reg prusa_key prusa_value) =
       fold (\<lambda>c d. dict_update d (settings (convert c prusa_key prusa_value)))
         (matching_converters reg prusa_key prusa_value) []
     \<and> set (dict_keys (settings (convert_setting reg prusa_key prusa_value))) =
       (\<Union>c \<in> set (matching_converters reg prusa_key prusa_value).
          set (dict_keys (settings (convert c prusa_key prusa_value))))
     \<and> ((\<forall>c \<in> set (matching_converters reg prusa_key prusa_value).
           distinct (dict_keys (settings (convert c prusa_key prusa_value)))) \<longrightarrow>
         map_of (settings (convert_setting reg prusa_key prusa_value)) =
           foldl (++) Map.empty
             (map (\<lambda>c. map_of (settings (convert c prusa_key prusa_value)))
                (matching_converters reg prusa_key prusa_value)))"
  using assms
  by (simp add: settings_convert_setting keys_fold_dict_update dict_keys_def
      map_of_fold_dict_update)

text \<open>
  A Direct rule and a Custom rule both match \<open>layer_height\<close>: the result has the target keys
  of both, and the Custom rule, registered later, wins the shared key.
\<close>

theorem convert_setting_fan_out_witness:
  "''layer_height'' \<notin> ignored_keys fan_out_registry
   \<and> settings (convert_setting fan_out_registry ''layer_height'' ''0.2'') =
       [(''layer_height'', ''custom''), (''initial_layer_print_height'', ''0.2'')]
   \<and> set (dict_keys (settings (convert_setting fan_out_registry ''layer_height'' ''0.2''))) =
       {''layer_height'', ''initial_layer_print_height''}
   \<and> map_of (settings (convert_setting fan_out_registry ''layer_height'' ''0.2'')) =
       [''layer_height'' \<mapsto> ''custom'', ''initial_layer_print_height'' \<mapsto> ''0.2'']"
proof -
  have h: "''layer_height'' \<notin> ignored_keys fan_out_registry"
    by (simp add: fan_out_registry_def register_custom_def register_split_def register_def
        new_registry_def)
  have m: "matching_converters fan_out_registry ''layer_height'' ''0.2'' =
     [SimpleKeyConverter ''layer_height'' ''layer_height'' None,
      CustomConverter (\<lambda>k v. k = ''layer_height'')
       (\<lambda>k v. \<lparr>settings = [(''initial_layer_print_height'', v), (''layer_height'', ''custom'')],
               needs_manual_conversion = []\<rparr>)]"
    by (simp add: matching_converters_def fan_out_registry_def register_custom_def
        register_split_def register_def new_registry_def)
  have d: "\<forall>c \<in> set (matching_converters fan_out_registry ''layer_height'' ''0.2'').
      distinct (dict_keys (settings (convert c ''layer_height'' ''0.2'')))"
    by (simp add: m add_setting_def new_result_def dict_set_def dict_keys_def)
  note t = convert_setting_fan_out [OF h, of "''0.2''"]
  from t have 1: "settings (convert_setting fan_out_registry ''layer_height'' ''0.2'') =
       [(''layer_height'', ''custom''), (''initial_layer_print_height'', ''0.2'')]"
    by (simp add: m dict_update_def dict_set_def add_setting_def new_result_def
        apply_transform_def)
  from t have 2: "set (dict_keys (settings (convert_setting fan_out_registry ''layer_height'' ''0.2''))) =
       {''layer_height'', ''initial_layer_print_height''}"
    by (simp add: m dict_set_def add_setting_def new_result_def dict_keys_def dict_update_def
        apply_transform_def insert_commute)
  from t d have "map_of (settings (convert_setting fan_out_registry ''layer_height'' ''0.2'')) =
           foldl (++) Map.empty
             (map (\<lambda>c. map_of (settings (convert c ''layer_height'' ''0.2'')))
                (matching_converters fan_out_registry ''layer_height'' ''0.2''))"
    by blast
  then have 3: "map_of (settings (convert_setting fan_out_registry ''layer_height'' ''0.2'')) =
       [''layer_height'' \<mapsto> ''custom'', ''initial_layer_print_height'' \<mapsto> ''0.2'']"
    by (simp add: m dict_set_def add_setting_def new_result_def apply_transform_def fun_eq_iff)
  from h 1 2 3 show ?thesis by blast
qed

subsection \<open>Registration\<close>

lemma claims_consistent_new: "claims_consistent new_registry"
  by (simp add: claims_consistent_def new_registry_def direct_sources_def)

lemma direct_sources_register:
  "direct_sources (register c reg) t = direct_sources reg t @ direct_source t c"
  by (simp add: direct_sources_def register_def)

lemma direct_sources_claims_update [simp]:
  "direct_sources (reg\<lparr>orca_key_mappings := m\<rparr>) t = direct_sources reg t"
  by (simp add: direct_sources_def)

lemma allowed_keys_claims_update [simp]:
  "allowed_keys_of (reg\<lparr>orca_key_mappings := m\<rparr>) t = allowed_keys_of reg t"
  by (simp add: allowed_keys_of_def)

lemma allowed_keys_register [simp]:
  "allowed_keys_of (register c reg) t = allowed_keys_of reg t"
  by (simp add: allowed_keys_of_def register_def)

lemma claims_register [simp]:
  "orca_key_mappings (register c reg) = orca_key_mappings reg"
  by (simp add: register_def)

lemma register_simple_Inr:
  assumes "register_simple p t f reg = Inr reg'"
  shows "converters reg' = converters reg @ [SimpleKeyConverter p t f]"
    and "orca_key_mappings reg' = (orca_key_mappings reg)(t \<mapsto> p)"
    and "mutually_exclusive_groups reg' = mutually_exclusive_groups reg"
    and "ignored_keys reg' = ignored_keys reg"
    and "orca_key_mappings reg t = None \<or> orca_key_mappings reg t = Some p
         \<or> p \<in> allowed_keys_of reg t"
proof -
  from assms consider
      (fresh) "orca_key_mappings reg t = None"
        "reg' = register (SimpleKeyConverter p t f)
                  (reg\<lparr>orca_key_mappings := (orca_key_mappings reg)(t \<mapsto> p)\<rparr>)"
    | (same) "orca_key_mappings reg t = Some p" "reg' = register (SimpleKeyConverter p t f) reg"
    | (shared) g where "mutually_exclusive_groups reg t = Some g" "p \<in> g"
        "reg' = register (SimpleKeyConverter p t f)
                  (reg\<lparr>orca_key_mappings := (orca_key_mappings reg)(t \<mapsto> p)\<rparr>)"
    unfolding register_simple_def
    by (cases "orca_key_mappings reg t"; cases "mutually_exclusive_groups reg t")
       (simp_all split: if_splits)
  then show "converters reg' = converters reg @ [SimpleKeyConverter p t f]"
    and "orca_key_mappings reg' = (orca_key_mappings reg)(t \<mapsto> p)"
    and "mutually_exclusive_groups reg' = mutually_exclusive_groups reg"
    and "ignored_keys reg' = ignored_keys reg"
    and "orca_key_mappings reg t = None \<or> orca_key_mappings reg t = Some p
         \<or> p \<in> allowed_keys_of reg t"
    by (cases; simp add: register_def allowed_keys_of_def fun_upd_idem)+
qed

lemma claims_consistent_register_simple:
  assumes inv: "claims_consistent reg" and ok: "register_simple p t f reg = Inr reg'"
  shows "claims_consistent reg'"
  unfolding claims_consistent_def
proof (intro allI)
  fix u
  note r = register_simple_Inr [OF ok]
  have src: "direct_sources reg' w = direct_sources reg w @ (if w = t then [p] else [])" for w
    by (simp add: direct_sources_def r(1))
  have alw: "allowed_keys_of reg' w = allowed_keys_of reg w" for w
    by (simp add: allowed_keys_of_def r(3))
  from inv have a: "\<And>e. orca_key_mappings reg u = Some e \<Longrightarrow> e \<in> set (direct_sources reg u)"
    and b: "direct_sources reg u \<noteq> [] \<Longrightarrow> orca_key_mappings reg u \<noteq> None"
    and c: "\<exists>first. \<forall>p \<in> set (direct_sources reg u). p = first \<or> p \<in> allowed_keys_of reg u"
    by (auto simp: claims_consistent_def)
  from c obtain first where first:
    "\<forall>p \<in> set (direct_sources reg u). p = first \<or> p \<in> allowed_keys_of reg u" by blast
  have 1: "\<forall>e. orca_key_mappings reg' u = Some e \<longrightarrow> e \<in> set (direct_sources reg' u)"
    using a by (simp add: r(2) src)
  have 2: "direct_sources reg' u \<noteq> [] \<longrightarrow> orca_key_mappings reg' u \<noteq> None"
    using b by (simp add: r(2) src)
  have 3: "\<exists>first. \<forall>p \<in> set (direct_sources reg' u). p = first \<or> p \<in> allowed_keys_of reg' u"
  proof (cases "u = t")
    case False
    with first show ?thesis by (auto simp: src alw)
  next
    case True
    have r5: "orca_key_mappings reg t = None \<or> orca_key_mappings reg t = Some p
         \<or> p \<in> allowed_keys_of reg t" by (rule r(5))
    then consider "orca_key_mappings reg t = None" | "orca_key_mappings reg t = Some p"
      | "p \<in> allowed_keys_of reg t" by auto
    then show ?thesis
    proof cases
      case 1
      with b True have "direct_sources reg u = []" by auto
      then show ?thesis by (auto simp: src)
    next
      case 2
      with a True have "p \<in> set (direct_sources reg u)" by simp
      with first have "p = first \<or> p \<in> allowed_keys_of reg u" by blast
      with first show ?thesis by (auto simp: src alw)
    next
      case 3
      with first True show ?thesis by (auto simp: src alw)
    qed
  qed
  from 1 2 3
  show "(\<forall>e. orca_key_mappings reg' u = Some e \<longrightarrow> e \<in> set (direct_sources reg' u))
        \<and> (direct_sources reg' u \<noteq> [] \<longrightarrow> orca_key_mappings reg' u \<noteq> None)
        \<and> (\<exists>first. \<forall>p \<in> set (direct_sources reg' u). p = first \<or> p \<in> allowed_keys_of reg' u)"
    by blast
qed

lemma claims_consistent_register:
  "claims_consistent reg \<Longrightarrow> (\<And>t. direct_source t c = [])
   \<Longrightarrow> claims_consistent (register c reg)"
  by (simp add: claims_consistent_def direct_sources_register)

lemma claims_consistent_ignore:
  "claims_consistent reg \<Longrightarrow> claims_consistent (register_ignore ks reg)"
  by (simp add: claims_consistent_def register_ignore_def direct_sources_def allowed_keys_of_def)

lemma allowed_keys_mutually_exclusive:
  "allowed_keys_of reg t \<subseteq> allowed_keys_of (register_mutually_exclusive ok ks reg) t"
  by (auto simp: allowed_keys_of_def register_mutually_exclusive_def split: option.splits)

lemma claims_consistent_mutually_exclusive:
  assumes inv: "claims_consistent reg"
  shows "claims_consistent (register_mutually_exclusive ok ks reg)"
  unfolding claims_consistent_def
proof (intro allI)
  fix u
  let ?reg' = "register_mutually_exclusive ok ks reg"
  have s: "direct_sources ?reg' u = direct_sources reg u"
    by (simp add: direct_sources_def register_mutually_exclusive_def split: option.splits)
  have m: "orca_key_mappings ?reg' = orca_key_mappings reg"
    by (simp add: register_mutually_exclusive_def split: option.splits)
  from inv have a: "\<forall>e. orca_key_mappings reg u = Some e \<longrightarrow> e \<in> set (direct_sources reg u)"
    and b: "direct_sources reg u \<noteq> [] \<longrightarrow> orca_key_mappings reg u \<noteq> None"
    and c: "\<exists>first. \<forall>p \<in> set (direct_sources reg u). p = first \<or> p \<in> allowed_keys_of reg u"
    unfolding claims_consistent_def by blast+
  from c obtain first where
    "\<forall>p \<in> set (direct_sources reg u). p = first \<or> p \<in> allowed_keys_of reg u" by blast
  with allowed_keys_mutually_exclusive [of reg u ok ks]
  have "\<forall>p \<in> set (direct_sources reg u). p = first \<or> p \<in> allowed_keys_of ?reg' u"
    by blast
  then have c': "\<exists>first. \<forall>p \<in> set (direct_sources ?reg' u).
      p = first \<or> p \<in> allowed_keys_of ?reg' u"
    unfolding s by blast
  from a b c' show "(\<forall>e. orca_key_mappings ?reg' u = Some e \<longrightarrow> e \<in> set (direct_sources ?reg' u))
      \<and> (direct_sources ?reg' u \<noteq> [] \<longrightarrow> orca_key_mappings ?reg' u \<noteq> None)
      \<and> (\<exists>first. \<forall>p \<in> set (direct_sources ?reg' u). p = first \<or> p \<in> allowed_keys_of ?reg' u)"
    unfolding s m by blast
qed

lemma claims_consistent_step:
  assumes "claims_consistent reg" and "apply_registration r reg = Inr reg'"
  shows "claims_consistent reg'"
proof (cases r)
  case (RegisterSimple p t f)
  with assms show ?thesis by (simp add: claims_consistent_register_simple)
next
  case (RegisterMulti pks ok tr)
  with assms show ?thesis
    by (simp add: register_multi_def) (metis claims_consistent_register direct_source.simps(2))
next
  case (RegisterSplit pk conversions)
  with assms show ?thesis
    by (simp add: register_split_def) (metis claims_consistent_register direct_source.simps(3))
next
  case (RegisterCustom cf f)
  with assms show ?thesis
    by (simp add: register_custom_def) (metis claims_consistent_register direct_source.simps(4))
next
  case (RegisterIgnore pks)
  with assms show ?thesis by (auto simp: claims_consistent_ignore)
next
  case (RegisterMutuallyExclusive ok pks)
  with assms show ?thesis by (auto simp: claims_consistent_mutually_exclusive)
qed

lemma claims_consistent_run:
  "claims_consistent reg \<Longrightarrow> apply_registrations rs reg = Inr reg' \<Longrightarrow> claims_consistent reg'"
proof (induction rs arbitrary: reg)
  case Nil
  then show ?case by simp
next
  case (Cons r rs)
  from Cons.prems(2) obtain reg1 where 1: "apply_registration r reg = Inr reg1"
    and 2: "apply_registrations rs reg1 = Inr reg'"
    by (cases "apply_registration r reg") simp_all
  from claims_consistent_step [OF Cons.prems(1) 1] have "claims_consistent reg1" .
  from Cons.IH [OF this 2] show ?case .
qed

text \<open>
  Claim C1, as amended. \<open>register_simple\<close>, called for a target key that another source key
  claims, raises unless the target key's mutually exclusive group lists the new source key;
  when it does, the rule is registered and the claim passes to the new source key. In a
  registry built by registration calls, the Direct rules for one target key all have the same
  source key or source keys listed in the target key's group, one source key at most
  excepted (the first to claim the target). \<open>register_multi\<close> takes no part in the check.
\<close>

theorem register_simple_duplicate_policy:
  "(orca_key_mappings reg orca_key = Some existing \<and> existing \<noteq> prusa_key
      \<and> prusa_key \<notin> allowed_keys_of reg orca_key
    \<longrightarrow> register_simple prusa_key orca_key tr reg = Inl (ValueError orca_key existing prusa_key))
   \<and> (orca_key_mappings reg orca_key = Some existing \<and> existing \<noteq> prusa_key
      \<and> prusa_key \<in> allowed_keys_of reg orca_key
    \<longrightarrow> register_simple prusa_key orca_key tr reg =
          Inr (reg\<lparr>converters := converters reg @ [SimpleKeyConverter prusa_key orca_key tr],
                   orca_key_mappings := (orca_key_mappings reg)(orca_key \<mapsto> prusa_key)\<rparr>))
   \<and> (apply_registrations rs new_registry = Inr built
    \<longrightarrow> (\<exists>first. \<forall>p \<in> set (direct_sources built orca_key).
           p = first \<or> p \<in> allowed_keys_of built orca_key))"
proof (intro conjI impI)
  assume "orca_key_mappings reg orca_key = Some existing \<and> existing \<noteq> prusa_key
      \<and> prusa_key \<notin> allowed_keys_of reg orca_key"
  then show "register_simple prusa_key orca_key tr reg = Inl (ValueError orca_key existing prusa_key)"
    by (auto simp: register_simple_def allowed_keys_of_def split: option.splits)
next
  assume "orca_key_mappings reg orca_key = Some existing \<and> existing \<noteq> prusa_key
      \<and> prusa_key \<in> allowed_keys_of reg orca_key"
  then show "register_simple prusa_key orca_key tr reg =
          Inr (reg\<lparr>converters := converters reg @ [SimpleKeyConverter prusa_key orca_key tr],
                   orca_key_mappings := (orca_key_mappings reg)(orca_key \<mapsto> prusa_key)\<rparr>)"
    by (auto simp: register_simple_def allowed_keys_of_def register_def split: option.splits)
next
  assume "apply_registrations rs new_registry = Inr built"
  from claims_consistent_run [OF claims_consistent_new this]
  show "\<exists>first. \<forall>p \<in> set (direct_sources built orca_key).
           p = first \<or> p \<in> allowed_keys_of built orca_key"
    unfolding claims_consistent_def by blast
qed

lemma chamber_run: "apply_registrations chamber_registrations new_registry = Inr chamber_registry"
  by (simp add: chamber_registrations_def chamber_registry_def new_registry_def
      register_mutually_exclusive_def register_simple_def register_def)

text \<open>
  The filament registry's chamber temperature: the group is declared first, both Direct
  rules register, the claim ends with the later key, and a third key is refused.
\<close>

theorem register_simple_duplicate_policy_witness:
  "register_simple ''bed_temperature'' ''chamber_temperature'' None chamber_registry =
     Inl (ValueError ''chamber_temperature'' ''chamber_minimal_temperature'' ''bed_temperature'')
   \<and> register_simple ''chamber_minimal_temperature'' ''chamber_temperature'' None
       chamber_registry_before = Inr chamber_registry
   \<and> apply_registrations chamber_registrations new_registry = Inr chamber_registry
   \<and> (\<exists>first. \<forall>p \<in> set (direct_sources chamber_registry ''chamber_temperature'').
         p = first \<or> p \<in> allowed_keys_of chamber_registry ''chamber_temperature'')
   \<and> direct_sources chamber_registry ''chamber_temperature'' =
       [''chamber_temperature'', ''chamber_minimal_temperature'']"
proof -
  have a: "orca_key_mappings chamber_registry ''chamber_temperature'' = Some ''chamber_minimal_temperature''
      \<and> ''chamber_minimal_temperature'' \<noteq> ''bed_temperature''
      \<and> ''bed_temperature'' \<notin> allowed_keys_of chamber_registry ''chamber_temperature''"
    by (simp add: chamber_registry_def allowed_keys_of_def)
  have b: "orca_key_mappings chamber_registry_before ''chamber_temperature'' = Some ''chamber_temperature''
      \<and> ''chamber_temperature'' \<noteq> ''chamber_minimal_temperature''
      \<and> ''chamber_minimal_temperature'' \<in> allowed_keys_of chamber_registry_before ''chamber_temperature''"
    by (simp add: chamber_registry_before_def allowed_keys_of_def)
  note t1 = register_simple_duplicate_policy
    [of chamber_registry "''chamber_temperature''" "''chamber_minimal_temperature''"
        "''bed_temperature''" None chamber_registrations chamber_registry]
  note t2 = register_simple_duplicate_policy
    [of chamber_registry_before "''chamber_temperature''" "''chamber_temperature''"
        "''chamber_minimal_temperature''" None chamber_registrations chamber_registry]
  have 1: "register_simple ''bed_temperature'' ''chamber_temperature'' None chamber_registry =
     Inl (ValueError ''chamber_temperature'' ''chamber_minimal_temperature'' ''bed_temperature'')"
    using t1 a by blast
  have 2: "register_simple ''chamber_minimal_temperature'' ''chamber_temperature'' None
       chamber_registry_before = Inr chamber_registry"
    using t2 b by (simp add: chamber_registry_before_def chamber_registry_def)
  have 3: "\<exists>first. \<forall>p \<in> set (direct_sources chamber_registry ''chamber_temperature'').
         p = first \<or> p \<in> allowed_keys_of chamber_registry ''chamber_temperature''"
    using t1 chamber_run by blast
  have 4: "direct_sources chamber_registry ''chamber_temperature'' =
       [''chamber_temperature'', ''chamber_minimal_temperature'']"
    by (simp add: direct_sources_def chamber_registry_def)
  from 1 2 3 4 chamber_run show ?thesis by blast
qed

text \<open>
  Claim C1 as stated fails for a Merge rule: \<open>register_multi\<close> registers a second rule for a
  target key that a Direct rule of another source key claims, with no group declared and no
  error, and both source keys then convert to that target key.
\<close>

theorem register_multi_unchecked_counterexample:
  "apply_registrations
     [RegisterSimple ''perimeters'' ''wall_loops'' None,
      RegisterMulti [''loops''] ''wall_loops'' None] new_registry = Inr simple_then_multi
   \<and> mutually_exclusive_groups simple_then_multi ''wall_loops'' = None
   \<and> get_reverse_mapping simple_then_multi ''wall_loops'' = [''perimeters'', ''loops'']
   \<and> settings (convert_setting simple_then_multi ''perimeters'' ''2'') = [(''wall_loops'', ''2'')]
   \<and> settings (convert_setting simple_then_multi ''loops'' ''3'') = [(''wall_loops'', ''3'')]"
  by (simp add: simple_then_multi_def new_registry_def register_simple_def register_multi_def
      register_def get_reverse_mapping_def convert_setting_def convert_step_def merge_def
      add_setting_def new_result_def dict_update_def dict_set_def apply_transform_def)

subsection \<open>Ignored and unconverted keys\<close>

lemma convert_dict_fold:
  "fold (\<lambda>(key, val) (converted, needs_conversion).
             let result = convert_setting reg key val
             in (dict_update converted (settings result),
                 needs_conversion @ needs_manual_conversion result)) d (c0, n0) =
   (fold (\<lambda>(k, v) acc. dict_update acc (settings (convert_setting reg k v))) d c0,
    n0 @ concat (map (\<lambda>(k, v). needs_manual_conversion (convert_setting reg k v)) d))"
  by (induction d arbitrary: c0 n0) (auto simp: Let_def)

lemma convert_setting_ignored:
  "k \<in> ignored_keys reg \<Longrightarrow> convert_setting reg k v = \<lparr>settings = [], needs_manual_conversion = []\<rparr>"
  by (simp add: convert_setting_def new_result_def)

lemma convert_setting_unmatched:
  "k \<notin> ignored_keys reg \<Longrightarrow> matching_converters reg k v = [] \<Longrightarrow>
   convert_setting reg k v = \<lparr>settings = [], needs_manual_conversion = [k]\<rparr>"
  by (simp add: convert_setting_not_ignored mark_needs_conversion_def new_result_def)

text \<open>
  Claim C6. An ignored key converts to the empty result; a key that is not ignored and that
  no converter matches converts to no settings and is reported, alone, as needing manual
  conversion; \<open>convert_dict\<close> reports the concatenation of the per-key reports over the whole
  input and merges the settings of every key: each unmatched key that is not ignored is
  reported, and when no matching converter reports keys of its own the report is exactly the
  unmatched keys that are not ignored, in input order.
\<close>

theorem ignored_and_unconverted_keys:
  "(k \<in> ignored_keys reg \<longrightarrow>
      convert_setting reg k v = \<lparr>settings = [], needs_manual_conversion = []\<rparr>)
   \<and> (k \<notin> ignored_keys reg \<and> matching_converters reg k v = [] \<longrightarrow>
      convert_setting reg k v = \<lparr>settings = [], needs_manual_conversion = [k]\<rparr>)
   \<and> snd (convert_dict reg d) =
       concat (map (\<lambda>(k, v). needs_manual_conversion (convert_setting reg k v)) d)
   \<and> fst (convert_dict reg d) =
       fold (\<lambda>(k, v) acc. dict_update acc (settings (convert_setting reg k v))) d []
   \<and> set (dict_keys (fst (convert_dict reg d))) =
       (\<Union>(k, v) \<in> set d. set (dict_keys (settings (convert_setting reg k v))))
   \<and> (\<forall>(k, v) \<in> set d. k \<notin> ignored_keys reg \<and> matching_converters reg k v = [] \<longrightarrow>
         k \<in> set (snd (convert_dict reg d)))
   \<and> ((\<forall>(k, v) \<in> set d. \<forall>c \<in> set (matching_converters reg k v).
          needs_manual_conversion (convert c k v) = []) \<longrightarrow>
       snd (convert_dict reg d) =
         map fst (filter (\<lambda>(k, v). k \<notin> ignored_keys reg \<and> matching_converters reg k v = []) d))"
proof -
  have n: "snd (convert_dict reg d) =
       concat (map (\<lambda>(k, v). needs_manual_conversion (convert_setting reg k v)) d)"
    by (simp add: convert_dict_def convert_dict_fold)
  have f: "fst (convert_dict reg d) =
       fold (\<lambda>(k, v) acc. dict_update acc (settings (convert_setting reg k v))) d []"
    by (simp add: convert_dict_def convert_dict_fold)
  have ks: "set (dict_keys (fst (convert_dict reg d))) =
       (\<Union>(k, v) \<in> set d. set (dict_keys (settings (convert_setting reg k v))))"
    using keys_fold_dict_update [of "\<lambda>kv. settings (convert_setting reg (fst kv) (snd kv))" d "[]"]
    by (simp add: f dict_keys_def case_prod_unfold)
  have un: "\<forall>(k, v) \<in> set d. k \<notin> ignored_keys reg \<and> matching_converters reg k v = [] \<longrightarrow>
         k \<in> set (snd (convert_dict reg d))"
    unfolding n by (force simp: convert_setting_unmatched)
  have ex: "snd (convert_dict reg d) =
         map fst (filter (\<lambda>(k, v). k \<notin> ignored_keys reg \<and> matching_converters reg k v = []) d)"
    if q: "\<forall>(k, v) \<in> set d. \<forall>c \<in> set (matching_converters reg k v).
          needs_manual_conversion (convert c k v) = []"
    unfolding n using q
  proof (induction d)
    case Nil
    show ?case by simp
  next
    case (Cons kv d)
    obtain k v where kv: "kv = (k, v)" by (cases kv)
    from Cons.prems kv have q1: "\<forall>c \<in> set (matching_converters reg k v).
          needs_manual_conversion (convert c k v) = []" by simp
    have "needs_manual_conversion (convert_setting reg k v) =
        (if k \<notin> ignored_keys reg \<and> matching_converters reg k v = [] then [k] else [])"
    proof (cases "k \<in> ignored_keys reg")
      case True
      then show ?thesis by (simp add: convert_setting_ignored)
    next
      case False
      have "concat (map (\<lambda>c. needs_manual_conversion (convert c k v)) (matching_converters reg k v)) = []"
        using q1 by simp
      with False show ?thesis by (simp add: needs_convert_setting)
    qed
    with Cons show ?case by (simp add: kv)
  qed
  from n f ks un ex show ?thesis
    by (simp add: convert_setting_ignored convert_setting_unmatched)
qed

text \<open>An ignored key, an unmatched key and a converted key in one input.\<close>

theorem ignored_and_unconverted_keys_witness:
  "''print_settings_id'' \<in> ignored_keys report_registry
   \<and> convert_setting report_registry ''print_settings_id'' ''x'' =
       \<lparr>settings = [], needs_manual_conversion = []\<rparr>
   \<and> ''unknown_key'' \<notin> ignored_keys report_registry
   \<and> matching_converters report_registry ''unknown_key'' ''1'' = []
   \<and> convert_setting report_registry ''unknown_key'' ''1'' =
       \<lparr>settings = [], needs_manual_conversion = [''unknown_key'']\<rparr>
   \<and> snd (convert_dict report_registry report_settings) = [''unknown_key'']
   \<and> fst (convert_dict report_registry report_settings) = [(''layer_height'', ''0.2'')]"
proof -
  have i: "''print_settings_id'' \<in> ignored_keys report_registry"
    by (simp add: report_registry_def)
  have u: "''unknown_key'' \<notin> ignored_keys report_registry
      \<and> matching_converters report_registry ''unknown_key'' ''1'' = []"
    by (simp add: report_registry_def matching_converters_def)
  have q: "\<forall>(k, v) \<in> set report_settings. \<forall>c \<in> set (matching_converters report_registry k v).
          needs_manual_conversion (convert c k v) = []"
    by (simp add: report_settings_def report_registry_def matching_converters_def
        add_setting_def new_result_def)
  note t1 = ignored_and_unconverted_keys
    [of "''print_settings_id''" report_registry "''x''" report_settings]
  note t2 = ignored_and_unconverted_keys
    [of "''unknown_key''" report_registry "''1''" report_settings]
  have 1: "convert_setting report_registry ''print_settings_id'' ''x'' =
       \<lparr>settings = [], needs_manual_conversion = []\<rparr>"
    using t1 i by blast
  have 2: "convert_setting report_registry ''unknown_key'' ''1'' =
       \<lparr>settings = [], needs_manual_conversion = [''unknown_key'']\<rparr>"
    using t2 u by blast
  from t1 q have "snd (convert_dict report_registry report_settings) =
         map fst (filter (\<lambda>(k, v). k \<notin> ignored_keys report_registry
            \<and> matching_converters report_registry k v = []) report_settings)"
    by blast
  then have 3: "snd (convert_dict report_registry report_settings) = [''unknown_key'']"
    by (simp add: report_settings_def report_registry_def matching_converters_def)
  from t1 have "fst (convert_dict report_registry report_settings) =
       fold (\<lambda>(k, v) acc. dict_update acc (settings (convert_setting report_registry k v)))
         report_settings []"
    by blast
  then have 4: "fst (convert_dict report_registry report_settings) = [(''layer_height'', ''0.2'')]"
    by (simp add: report_settings_def report_registry_def convert_setting_def convert_step_def
        merge_def add_setting_def new_result_def dict_update_def dict_set_def apply_transform_def
        mark_needs_conversion_def)
  from i u 1 2 3 4 show ?thesis by blast
qed

text \<open>
  Claim C10. A key registered as ignored converts to the empty result (no settings, no
  report), whatever converters are registered before or after and although the converters
  that match the key are still in the registry.
\<close>

theorem ignored_key_precedence:
  assumes "prusa_key \<in> set prusa_keys"
  shows "convert_setting (register_ignore prusa_keys reg) prusa_key v =
           \<lparr>settings = [], needs_manual_conversion = []\<rparr>
         \<and> convert_setting (register c (register_ignore prusa_keys reg)) prusa_key v =
           \<lparr>settings = [], needs_manual_conversion = []\<rparr>
         \<and> matching_converters (register_ignore prusa_keys reg) prusa_key v =
           matching_converters reg prusa_key v"
  using assms
  by (simp add: convert_setting_def register_ignore_def register_def new_result_def
      matching_converters_def)

text \<open>The key converts before it is ignored; once ignored, its matching converter is not applied.\<close>

theorem ignored_key_precedence_witness:
  "''max_print_speed'' \<in> set [''max_print_speed'']
   \<and> settings (convert_setting speed_registry ''max_print_speed'' ''80'') = [(''max_speed'', ''80'')]
   \<and> matching_converters (register_ignore [''max_print_speed''] speed_registry)
        ''max_print_speed'' ''80'' = [SimpleKeyConverter ''max_print_speed'' ''max_speed'' None]
   \<and> convert_setting (register_ignore [''max_print_speed''] speed_registry)
        ''max_print_speed'' ''80'' = \<lparr>settings = [], needs_manual_conversion = []\<rparr>"
proof -
  have h: "''max_print_speed'' \<in> set [''max_print_speed'']" by simp
  have a: "settings (convert_setting speed_registry ''max_print_speed'' ''80'') = [(''max_speed'', ''80'')]"
    by (simp add: speed_registry_def convert_setting_def convert_step_def merge_def
        add_setting_def new_result_def dict_update_def dict_set_def apply_transform_def)
  have m: "matching_converters speed_registry ''max_print_speed'' ''80'' =
      [SimpleKeyConverter ''max_print_speed'' ''max_speed'' None]"
    by (simp add: speed_registry_def matching_converters_def)
  from ignored_key_precedence [OF h, of speed_registry "''80''"] a m h show ?thesis
    by simp
qed

section \<open>Facts about inheritance resolution\<close>

lemma keys_apply_settings:
  "fst ` set (apply_settings tag cur items r) = fst ` set r \<union> (fst ` set items - {''inherits''})"
  unfolding apply_settings_def
proof (induction items arbitrary: r)
  case Nil
  show ?case by simp
next
  case (Cons kv items)
  obtain k v where kv: "kv = (k, v)" by (cases kv)
  show ?case
    unfolding kv by (cases "k = ''inherits''") (auto simp: Cons.IH keys_dict_set)
qed

lemma map_of_apply_settings:
  assumes "distinct (map fst items)"
  shows "map_of (apply_settings tag cur items r) k =
     (if k \<noteq> ''inherits'' \<and> k \<in> fst ` set items
      then map_option (tag cur) (map_of items k) else map_of r k)"
  using assms unfolding apply_settings_def
proof (induction items arbitrary: r)
  case Nil
  show ?case by simp
next
  case (Cons kv items)
  obtain k0 v0 where kv: "kv = (k0, v0)" by (cases kv)
  from Cons.prems kv have fresh: "k0 \<notin> fst ` set items" and dist: "distinct (map fst items)"
    by auto
  note IH = Cons.IH [OF dist]
  show ?case
  proof (cases "k = k0")
    case True
    from fresh have "k \<notin> fst ` set items" by (simp add: True)
    then show ?thesis by (simp add: kv IH map_of_dict_set True [symmetric])
  next
    case False
    then show ?thesis by (simp add: kv IH map_of_dict_set)
  qed
qed

lemma section_items_distinct:
  "well_formed cfg \<Longrightarrow> distinct (map fst (section_items cfg name))"
  unfolding well_formed_def section_items_def dict_keys_def
  by (auto split: option.splits dest!: map_of_SomeD)

lemma visited_grows:
  "fst st \<subseteq> fst (resolve_recursive tag cfg current_section st)"
  "fst st \<subseteq> fst (resolve_each tag cfg names st)"
proof (induction tag cfg current_section st and tag cfg names st
    rule: resolve_recursive_resolve_each.induct)
  case (1 tag cfg current_section visited resolved)
  then show ?case by (auto simp: resolve_recursive.simps Let_def)
next
  case (2 tag cfg st)
  show ?case by simp
next
  case (3 tag cfg name names st)
  then show ?case by auto
qed

lemma no_inherits_key:
  "''inherits'' \<notin> fst ` set (snd st) \<Longrightarrow>
     ''inherits'' \<notin> fst ` set (snd (resolve_recursive tag cfg current_section st))"
  "''inherits'' \<notin> fst ` set (snd st) \<Longrightarrow>
     ''inherits'' \<notin> fst ` set (snd (resolve_each tag cfg names st))"
proof (induction tag cfg current_section st and tag cfg names st
    rule: resolve_recursive_resolve_each.induct)
  case (1 tag cfg current_section visited resolved)
  then show ?case by (simp add: resolve_recursive.simps Let_def keys_apply_settings)
next
  case (2 tag cfg st)
  then show ?case by simp
next
  case (3 tag cfg name names st)
  then show ?case by simp
qed

lemma resolve_each_append:
  "resolve_each tag cfg (xs @ ys) st = resolve_each tag cfg ys (resolve_each tag cfg xs st)"
  by (induction xs arbitrary: st) simp_all

text \<open>
  The walk over the sections of all parents is the source's two nested loops: for each parent
  name in turn, the walk over the sections that name stands for.
\<close>

lemma resolve_each_nested_loops:
  "resolve_each tag cfg (concat (map (parent_targets cfg current_section) names)) st =
     fold (\<lambda>parent_name st. resolve_each tag cfg (parent_targets cfg current_section parent_name) st)
       names st"
  by (induction names arbitrary: st) (simp_all add: resolve_each_append)

text \<open>
  A resolution visits, beyond what was visited before, only the section it starts from and
  sections reached from it along inheritance edges.
\<close>

lemma visited_within_ancestors:
  "fst (resolve_recursive tag cfg current_section st) \<subseteq>
     fst st \<union> {t. (current_section, t) \<in> (inherits_from cfg)\<^sup>*}"
  "fst (resolve_each tag cfg names st) \<subseteq>
     fst st \<union> {t. \<exists>s \<in> set names. (s, t) \<in> (inherits_from cfg)\<^sup>*}"
proof (induction tag cfg current_section st and tag cfg names st
    rule: resolve_recursive_resolve_each.induct)
  case (1 tag cfg current_section visited resolved)
  show ?case
  proof (cases "current_section \<in> visited \<or> \<not> in_config cfg current_section")
    case True
    then show ?thesis by (auto simp: resolve_recursive.simps)
  next
    case False
    with 1 have IH: "fst (resolve_each tag cfg (inherited_sections cfg current_section)
        (insert current_section visited, resolved)) \<subseteq>
        insert current_section visited \<union>
        {t. \<exists>s \<in> set (inherited_sections cfg current_section). (s, t) \<in> (inherits_from cfg)\<^sup>*}"
      by simp
    have "(current_section, t) \<in> (inherits_from cfg)\<^sup>*"
      if "s \<in> set (inherited_sections cfg current_section)" "(s, t) \<in> (inherits_from cfg)\<^sup>*"
      for s t
    proof -
      from that(1) have "(current_section, s) \<in> inherits_from cfg"
        by (simp add: inherits_from_def)
      then show ?thesis using that(2) by (rule converse_rtrancl_into_rtrancl)
    qed
    with IH False show ?thesis
      by (auto simp: resolve_recursive.simps Let_def)
  qed
next
  case (2 tag cfg st)
  show ?case by simp
next
  case (3 tag cfg name names st)
  then show ?case by auto
qed

lemma later_parent_not_ancestor:
  assumes "B \<noteq> C" and "(A, B) \<notin> (inherits_from cfg)\<^sup>*"
  shows "B \<notin> fst (resolve_recursive tag cfg A ({C}, resolved))"
  using visited_within_ancestors(1) [of tag cfg A "({C}, resolved)"] assms by auto

lemma resolve_recursive_unvisited:
  assumes "current_section \<notin> visited" and "in_config cfg current_section"
  shows "snd (resolve_recursive tag cfg current_section (visited, resolved)) =
     apply_settings tag current_section (section_items cfg current_section)
       (snd (resolve_each tag cfg (inherited_sections cfg current_section)
          (insert current_section visited, resolved)))"
  using assms by (simp add: resolve_recursive.simps Let_def)

lemma own_settings_last:
  assumes "current_section \<notin> fst st" and "in_config cfg current_section"
    and "distinct (map fst (section_items cfg current_section))"
    and "map_of (section_items cfg current_section) k = Some v" and "k \<noteq> ''inherits''"
  shows "map_of (snd (resolve_recursive tag cfg current_section st)) k = Some (tag current_section v)"
proof -
  obtain visited resolved where st: "st = (visited, resolved)" by (cases st)
  from assms(4) have "k \<in> fst ` set (section_items cfg current_section)"
    by (metis domI dom_map_of_conv_image_fst)
  with assms show ?thesis
    by (simp add: st resolve_recursive_unvisited map_of_apply_settings)
qed

lemma direct_settings_Some:
  "map_of (get_direct_settings cfg name) k = Some v \<longleftrightarrow>
     in_config cfg name \<and> k \<noteq> ''inherits'' \<and> map_of (section_items cfg name) k = Some v"
proof -
  have "map_of (filter (\<lambda>(k, v). k \<noteq> ''inherits'') items) k =
      (if k \<noteq> ''inherits'' then map_of items k else None)" for items :: "(string, string) dict"
    by (induction items) auto
  then show ?thesis by (auto simp: get_direct_settings_def)
qed

lemma direct_settings_None:
  "in_config cfg name \<Longrightarrow> k \<noteq> ''inherits'' \<Longrightarrow>
   map_of (get_direct_settings cfg name) k = None \<longleftrightarrow> map_of (section_items cfg name) k = None"
proof -
  have "map_of (filter (\<lambda>(k, v). k \<noteq> ''inherits'') items) k =
      (if k \<noteq> ''inherits'' then map_of items k else None)" for items :: "(string, string) dict"
    by (induction items) auto
  then show "in_config cfg name \<Longrightarrow> k \<noteq> ''inherits'' \<Longrightarrow> ?thesis"
    by (auto simp: get_direct_settings_def)
qed

lemma resolve_profile_own_settings:
  assumes "well_formed cfg" and "dict_get (get_direct_settings cfg name) k = Some v"
  shows "dict_get (resolve_profile cfg name) k = Some v"
proof -
  from assms(2) have c: "in_config cfg name" and k: "k \<noteq> ''inherits''"
    and v: "map_of (section_items cfg name) k = Some v"
    by (simp_all add: dict_get_def direct_settings_Some)
  from own_settings_last [of name "({}, [])" cfg k v "\<lambda>s v. v"] c k v
    section_items_distinct [OF assms(1)]
  show ?thesis by (simp add: resolve_profile_def dict_get_def)
qed

text \<open>
  Claim C5, as amended. Let the inheritance chain of \<open>C\<close> be \<open>[A, B]\<close>, and let \<open>A\<close> and
  \<open>B\<close> both define the key \<open>k\<close> directly, with different values. If \<open>C\<close> does not define
  \<open>k\<close> and \<open>B\<close> was not visited while \<open>A\<close> was resolved (\<open>B\<close> is not an ancestor that the
  resolution of \<open>A\<close> reaches), then the resolved value of \<open>k\<close> for \<open>C\<close> is the one resolved
  for \<open>B\<close>: the later parent wins. If \<open>C\<close> defines \<open>k\<close> itself, the resolved value is
  \<open>C\<close>'s own, whatever the parents are.
\<close>

theorem parent_order_and_self_precedence:
  assumes wf: "well_formed cfg"
    and chain: "get_inheritance_chain cfg C = [A, B]"
    and a: "dict_get (get_direct_settings cfg A) k = Some va"
    and b: "dict_get (get_direct_settings cfg B) k = Some vb"
    and ne: "va \<noteq> vb"
  shows "(dict_get (get_direct_settings cfg C) k = None
          \<and> B \<notin> fst (resolve_recursive (\<lambda>current_section val. val) cfg A ({C}, []))
          \<longrightarrow> dict_get (resolve_profile cfg C) k = dict_get (resolve_profile cfg B) k)
       \<and> (\<forall>vc. dict_get (get_direct_settings cfg C) k = Some vc
          \<longrightarrow> dict_get (resolve_profile cfg C) k = Some vc)"
proof (intro conjI impI allI)
  fix vc
  assume "dict_get (get_direct_settings cfg C) k = Some vc"
  with wf show "dict_get (resolve_profile cfg C) k = Some vc"
    by (rule resolve_profile_own_settings)
next
  let ?tag = "\<lambda>current_section val :: string. val"
  let ?st1 = "resolve_recursive ?tag cfg A ({C}, [])"
  assume h: "dict_get (get_direct_settings cfg C) k = None
          \<and> B \<notin> fst (resolve_recursive (\<lambda>current_section val. val) cfg A ({C}, []))"
  from b have cb: "in_config cfg B" and k: "k \<noteq> ''inherits''"
    and vb: "map_of (section_items cfg B) k = Some vb"
    by (simp_all add: dict_get_def direct_settings_Some)
  from chain have cc: "in_config cfg C" and inh: "inherited_sections cfg C = [A, B]"
    by (auto simp: get_inheritance_chain_def split: if_splits)
  from h cc k have nc: "map_of (section_items cfg C) k = None"
    by (simp add: dict_get_def direct_settings_None)
  then have notin: "k \<notin> fst ` set (section_items cfg C)"
    by (simp add: map_of_eq_None_iff)
  from h have nv: "B \<notin> fst ?st1" by simp
  have "map_of (snd (resolve_recursive ?tag cfg B ?st1)) k = Some vb"
    using own_settings_last [OF nv cb section_items_distinct [OF wf] vb k, of ?tag] by simp
  then have "map_of (snd (resolve_each ?tag cfg [A, B] ({C}, []))) k = Some vb"
    by simp
  then have "dict_get (resolve_profile cfg C) k = Some vb"
    using cc notin
    by (simp add: resolve_profile_def dict_get_def inh resolve_recursive_unvisited
        map_of_apply_settings [OF section_items_distinct [OF wf]])
  moreover have "dict_get (resolve_profile cfg B) k = Some vb"
    using wf b by (rule resolve_profile_own_settings)
  ultimately show "dict_get (resolve_profile cfg C) k = dict_get (resolve_profile cfg B) k"
    by simp
qed

text \<open>
  Two unrelated parents: \<open>print:C\<close> takes \<open>layer_height\<close> from the later parent
  \<open>print:B\<close>; \<open>print:E\<close>, which defines it, keeps its own value.
\<close>

theorem parent_order_and_self_precedence_witness:
  "well_formed two_parents
   \<and> get_inheritance_chain two_parents ''print:C'' = [''print:A'', ''print:B'']
   \<and> get_inheritance_chain two_parents ''print:E'' = [''print:A'', ''print:B'']
   \<and> dict_get (get_direct_settings two_parents ''print:A'') ''layer_height'' = Some ''0.1''
   \<and> dict_get (get_direct_settings two_parents ''print:B'') ''layer_height'' = Some ''0.2''
   \<and> dict_get (get_direct_settings two_parents ''print:C'') ''layer_height'' = None
   \<and> ''print:B'' \<notin> fst (resolve_recursive (\<lambda>current_section val. val) two_parents
                            ''print:A'' ({''print:C''}, []))
   \<and> dict_get (resolve_profile two_parents ''print:C'') ''layer_height'' =
       dict_get (resolve_profile two_parents ''print:B'') ''layer_height''
   \<and> dict_get (get_direct_settings two_parents ''print:E'') ''layer_height'' = Some ''0.3''
   \<and> dict_get (resolve_profile two_parents ''print:E'') ''layer_height'' = Some ''0.3''"
proof -
  have wf: "well_formed two_parents" by code_simp
  have c: "get_inheritance_chain two_parents ''print:C'' = [''print:A'', ''print:B'']"
    by code_simp
  have e: "get_inheritance_chain two_parents ''print:E'' = [''print:A'', ''print:B'']"
    by code_simp
  have a: "dict_get (get_direct_settings two_parents ''print:A'') ''layer_height'' = Some ''0.1''"
    by code_simp
  have b: "dict_get (get_direct_settings two_parents ''print:B'') ''layer_height'' = Some ''0.2''"
    by code_simp
  have ne: "''0.1'' \<noteq> ''0.2''" by simp
  have h: "dict_get (get_direct_settings two_parents ''print:C'') ''layer_height'' = None
      \<and> ''print:B'' \<notin> fst (resolve_recursive (\<lambda>current_section val. val) two_parents
                            ''print:A'' ({''print:C''}, []))"
    by code_simp
  have own: "dict_get (get_direct_settings two_parents ''print:E'') ''layer_height'' = Some ''0.3''"
    by code_simp
  from parent_order_and_self_precedence [OF wf c a b ne] h
  have 1: "dict_get (resolve_profile two_parents ''print:C'') ''layer_height'' =
       dict_get (resolve_profile two_parents ''print:B'') ''layer_height''"
    by blast
  from parent_order_and_self_precedence [OF wf e a b ne] own
  have 2: "dict_get (resolve_profile two_parents ''print:E'') ''layer_height'' = Some ''0.3''"
    by blast
  from wf c e a b h own 1 2 show ?thesis by blast
qed

text \<open>
  Claim C5 as stated fails when the later parent is an ancestor of the earlier one:
  \<open>print:B\<close> is visited while \<open>print:A\<close> is resolved, the visited set of the resolution
  skips it when its turn as a parent of \<open>print:C\<close> comes, and the value of the earlier
  parent \<open>print:A\<close> stays.
\<close>

theorem later_parent_already_visited_counterexample:
  "well_formed parent_chain
   \<and> get_inheritance_chain parent_chain ''print:C'' = [''print:A'', ''print:B'']
   \<and> dict_get (get_direct_settings parent_chain ''print:A'') ''layer_height'' = Some ''0.1''
   \<and> dict_get (get_direct_settings parent_chain ''print:B'') ''layer_height'' = Some ''0.2''
   \<and> dict_get (get_direct_settings parent_chain ''print:C'') ''layer_height'' = None
   \<and> dict_get (resolve_profile parent_chain ''print:B'') ''layer_height'' = Some ''0.2''
   \<and> dict_get (resolve_profile parent_chain ''print:C'') ''layer_height'' = Some ''0.1''"
  by code_simp

text \<open>
  Claim C9, as amended. \<open>resolve_profile\<close>, \<open>resolve_profile_with_source\<close> and
  \<open>get_direct_settings\<close> never return the key \<open>inherits\<close>, for any store and any section name.
  (The records of \<open>profile_parser.py\<close> keep \<open>inherits\<close> as an ordinary field.)
\<close>

theorem inherits_never_resolved:
  "''inherits'' \<notin> set (dict_keys (resolve_profile cfg section_name))
   \<and> ''inherits'' \<notin> set (dict_keys (resolve_profile_with_source cfg section_name))
   \<and> ''inherits'' \<notin> set (dict_keys (get_direct_settings cfg section_name))"
proof -
  have 1: "''inherits'' \<notin> fst ` set (snd (resolve_recursive (\<lambda>current_section val. val)
      cfg section_name ({}, [])))"
    by (rule no_inherits_key) simp
  have 2: "''inherits'' \<notin> fst ` set (snd (resolve_recursive
      (\<lambda>current_section val. (val, current_section)) cfg section_name ({}, [])))"
    by (rule no_inherits_key) simp
  have 3: "''inherits'' \<notin> fst ` set (get_direct_settings cfg section_name)"
    by (auto simp: get_direct_settings_def)
  from 1 2 3 show ?thesis
    by (simp add: resolve_profile_def resolve_profile_with_source_def dict_keys_def)
qed

lemma strip_A: "strip ''A'' = ''A''" by code_simp

lemma strip_B: "strip ''B'' = ''B''" by code_simp

lemma cyclic_never_returns_both:
  "resolve_inherited_settings fuel reg cyclic_profiles profile_A = None
   \<and> resolve_inherited_settings fuel reg cyclic_profiles profile_B = None"
proof (induction fuel)
  case 0
  show ?case by simp
next
  case (Suc fuel)
  then show ?case
    by (simp add: profile_A_def profile_B_def cyclic_profiles_def strip_A strip_B)
qed

lemma merge_parents_skip:
  assumes "map_of all_profiles parent_name = None"
  shows "merge_parents fuel reg all_profiles (before @ parent_name # after) merged =
         merge_parents fuel reg all_profiles (before @ after) merged"
proof (induction before arbitrary: merged)
  case Nil
  from assms show ?case by simp
next
  case (Cons p before)
  show ?case
  proof (cases "map_of all_profiles p")
    case None
    then show ?thesis by (simp add: Cons.IH)
  next
    case (Some parent)
    then show ?thesis
      by (cases "resolve_inherited_settings fuel reg all_profiles parent")
         (simp_all add: Cons.IH split: sum.splits)
  qed
qed

text \<open>
  Claim C8. In \<open>resolve_profile\<close>, a parent name that is not a wildcard and is found neither
  as a section name nor with the section type prefixed resolves to no section: the walk over
  the parents gives the same visited set and the same resolved settings as without that name
  in the list, and nothing is raised. In \<open>_resolve_inherited_settings\<close>, a parent name that is
  not a key of \<open>all_profiles\<close> is passed over likewise.
\<close>

theorem unresolvable_parent_skipped:
  "(\<not> is_wildcard parent_name \<and> \<not> in_config cfg parent_name
      \<and> \<not> in_config cfg (section_type current_section @ '':'' @ parent_name)
    \<longrightarrow> parent_targets cfg current_section parent_name = []
        \<and> resolve_each tag cfg
            (concat (map (parent_targets cfg current_section) (before @ parent_name # after))) st =
          resolve_each tag cfg
            (concat (map (parent_targets cfg current_section) (before @ after))) st)
   \<and> (dict_get all_profiles parent_name = None
    \<longrightarrow> merge_parents fuel reg all_profiles (before @ parent_name # after) merged =
        merge_parents fuel reg all_profiles (before @ after) merged)"
proof (intro conjI impI)
  assume h: "\<not> is_wildcard parent_name \<and> \<not> in_config cfg parent_name
      \<and> \<not> in_config cfg (section_type current_section @ '':'' @ parent_name)"
  then show t: "parent_targets cfg current_section parent_name = []"
    by (simp add: parent_targets_def find_full_name_def)
  show "resolve_each tag cfg
            (concat (map (parent_targets cfg current_section) (before @ parent_name # after))) st =
          resolve_each tag cfg
            (concat (map (parent_targets cfg current_section) (before @ after))) st"
    by (simp add: t)
next
  assume "dict_get all_profiles parent_name = None"
  then show "merge_parents fuel reg all_profiles (before @ parent_name # after) merged =
        merge_parents fuel reg all_profiles (before @ after) merged"
    by (simp add: dict_get_def merge_parents_skip)
qed

text \<open>The parent \<open>gone\<close> exists in neither store; the other two parents and the own fields resolve.\<close>

theorem unresolvable_parent_skipped_witness:
  "\<not> is_wildcard ''gone'' \<and> \<not> in_config missing_parent ''gone''
   \<and> \<not> in_config missing_parent (section_type ''print:C'' @ '':'' @ ''gone'')
   \<and> parent_names ''A; gone; B'' = [''A''] @ ''gone'' # [''B'']
   \<and> parent_targets missing_parent ''print:C'' ''gone'' = []
   \<and> resolve_each (\<lambda>current_section val. val) missing_parent
        (concat (map (parent_targets missing_parent ''print:C'') ([''A''] @ ''gone'' # [''B''])))
        ({''print:C''}, []) =
       resolve_each (\<lambda>current_section val. val) missing_parent
        (concat (map (parent_targets missing_parent ''print:C'') ([''A''] @ [''B''])))
        ({''print:C''}, [])
   \<and> resolve_profile missing_parent ''print:C'' =
       [(''layer_height'', ''0.1''), (''perimeters'', ''2''), (''fill_density'', ''15%'')]
   \<and> dict_get missing_parent_profiles ''gone'' = None
   \<and> merge_parents 1 identity_registry missing_parent_profiles ([''A''] @ ''gone'' # [''B'']) [] =
       merge_parents 1 identity_registry missing_parent_profiles ([''A''] @ [''B'']) []
   \<and> resolve_inherited_settings 2 identity_registry missing_parent_profiles
        [(''name'', Str ''C''), (''inherits'', Str ''A; gone; B'')] =
       Some (Inr [(''layer_height'', Str ''0.1''), (''wall_loops'', Str ''2'')])"
proof -
  have h1: "\<not> is_wildcard ''gone'' \<and> \<not> in_config missing_parent ''gone''
   \<and> \<not> in_config missing_parent (section_type ''print:C'' @ '':'' @ ''gone'')"
    by code_simp
  have h2: "dict_get missing_parent_profiles ''gone'' = None" by code_simp
  have p: "parent_names ''A; gone; B'' = [''A''] @ ''gone'' # [''B'']" by code_simp
  have r: "resolve_profile missing_parent ''print:C'' =
       [(''layer_height'', ''0.1''), (''perimeters'', ''2''), (''fill_density'', ''15%'')]"
    by code_simp
  have c: "resolve_inherited_settings 2 identity_registry missing_parent_profiles
        [(''name'', Str ''C''), (''inherits'', Str ''A; gone; B'')] =
       Some (Inr [(''layer_height'', Str ''0.1''), (''wall_loops'', Str ''2'')])"
    by code_simp
  note t = unresolvable_parent_skipped
    [of "''gone''" missing_parent "''print:C''" "\<lambda>current_section val. val" "[''A'']" "[''B'']"
        "({''print:C''}, [])" missing_parent_profiles 1 identity_registry "[]"]
  from t h1 h2 p r c show ?thesis by blast
qed

text \<open>
  Cycles in \<open>ProfileParser.resolve_profile\<close>: the function is total (its termination is proved
  with the definition), and the resolved profile of any section of a well-formed store holds the
  section's own direct settings, also when two sections inherit from each other.
\<close>

lemma resolve_profile_cycle_safe:
  assumes "well_formed cfg"
    and "get_inheritance_chain cfg A = [B]" and "get_inheritance_chain cfg B = [A]"
  shows "(\<forall>k v. dict_get (get_direct_settings cfg A) k = Some v
            \<longrightarrow> dict_get (resolve_profile cfg A) k = Some v)
       \<and> (\<forall>k v. dict_get (get_direct_settings cfg B) k = Some v
            \<longrightarrow> dict_get (resolve_profile cfg B) k = Some v)"
  using assms(1) by (blast intro: resolve_profile_own_settings)

lemma resolve_profile_cyclic_store:
  "get_inheritance_chain cyclic_store ''print:A'' = [''print:B'']
   \<and> get_inheritance_chain cyclic_store ''print:B'' = [''print:A'']
   \<and> resolve_profile cyclic_store ''print:A'' = [(''perimeters'', ''2''), (''layer_height'', ''0.2'')]
   \<and> resolve_profile cyclic_store ''print:B'' = [(''layer_height'', ''0.2''), (''perimeters'', ''2'')]"
  by code_simp

text \<open>
  Claim C2 on \<open>PrintProfileConverter._resolve_inherited_settings\<close>: with two profiles that
  inherit from each other, the call for either profile does not return, whatever the fuel
  (the depth of calls allowed) and whatever the registry: the recursion has no visited set.
\<close>

theorem resolve_inherited_settings_cycle:
  "dict_get cyclic_profiles ''A'' = Some profile_A
   \<and> dict_get cyclic_profiles ''B'' = Some profile_B
   \<and> dict_get profile_A ''inherits'' = Some (Str ''B'')
   \<and> dict_get profile_B ''inherits'' = Some (Str ''A'')
   \<and> resolve_inherited_settings fuel reg cyclic_profiles profile_A = None
   \<and> resolve_inherited_settings fuel reg cyclic_profiles profile_B = None"
proof -
  have "dict_get cyclic_profiles ''A'' = Some profile_A
   \<and> dict_get cyclic_profiles ''B'' = Some profile_B
   \<and> dict_get profile_A ''inherits'' = Some (Str ''B'')
   \<and> dict_get profile_B ''inherits'' = Some (Str ''A'')"
    by (simp add: dict_get_def cyclic_profiles_def profile_A_def profile_B_def)
  with cyclic_never_returns_both [of fuel reg] show ?thesis by blast
qed

text \<open>
  Claim C9 as stated fails for the records of \<open>ProfileParser.parse\<close> in
  \<open>profile_parser.py\<close>: the \<open>inherits\<close> line is stored in the block like every other
  \<open>key = value\<close> line.
\<close>

theorem parse_keeps_inherits_counterexample:
  "parse child_lines =
     Inr [(''print'',
           Blocks [[(''name'', Str ''base''), (''layer_height'', Str ''0.2'')],
                   [(''name'', Str ''child''), (''inherits'', Str ''base''),
                    (''layer_height'', Str ''0.25'')]])]
   \<and> ''inherits'' \<in> set (dict_keys [(''name'', Str ''child''), (''inherits'', Str ''base''),
                                      (''layer_height'', Str ''0.25'')])"
  by code_simp

section \<open>Facts about the comparison\<close>

text \<open>
  What \<open>compare_profiles\<close> reports: the direct changes of a section are the keys whose
  direct setting differs between the two generations, every entry of \<open>added\<close>, \<open>removed\<close>
  and \<open>modified\<close> is such a key, and a section common to both generations is among the changed
  profiles exactly when it has a direct change (at a key that is not the empty string).
\<close>

lemma dict_has_get: "dict_has d k \<longleftrightarrow> dict_get d k \<noteq> None"
  by (simp add: dict_has_def dict_get_def dict_keys_def map_of_eq_None_iff)

lemma set_dict_keys_dict_set: "set (dict_keys (dict_set k v d)) = insert k (set (dict_keys d))"
  by (simp add: dict_keys_def keys_dict_set)

lemma classify_key_step:
  "direct_changes (classify_key op np od nd k changes) =
     (if dict_get od k \<noteq> dict_get nd k then insert k (direct_changes changes)
      else direct_changes changes)"
  "change_keys (classify_key op np od nd k changes) =
     (if dict_get od k \<noteq> dict_get nd k then insert k (change_keys changes)
      else change_keys changes)"
  by (cases "dict_get od k"; cases "dict_get nd k";
      simp add: classify_key_def dict_has_get Let_def change_keys_def set_dict_keys_dict_set)+

lemma fold_classify_key:
  "direct_changes (fold (classify_key op np od nd) ks changes) =
     direct_changes changes \<union> {k \<in> set ks. dict_get od k \<noteq> dict_get nd k}"
  "change_keys (fold (classify_key op np od nd) ks changes) =
     change_keys changes \<union> {k \<in> set ks. dict_get od k \<noteq> dict_get nd k}"
  by (induction ks arbitrary: changes) (auto simp: classify_key_step)

lemma direct_keys_resolved:
  "set (dict_keys (get_direct_settings cfg s)) \<subseteq> set (dict_keys (resolve_profile_with_source cfg s))"
proof (cases "in_config cfg s")
  case False
  then show ?thesis by (simp add: get_direct_settings_def dict_keys_def)
next
  case True
  then have "snd (resolve_recursive (\<lambda>current_section val. (val, current_section)) cfg s ({}, [])) =
     apply_settings (\<lambda>current_section val. (val, current_section)) s (section_items cfg s)
       (snd (resolve_each (\<lambda>current_section val. (val, current_section)) cfg
          (inherited_sections cfg s) ({s}, [])))"
    by (simp add: resolve_recursive_unvisited)
  with True show ?thesis
    by (auto simp: get_direct_settings_def resolve_profile_with_source_def dict_keys_def
        keys_apply_settings)
qed

lemma section_changes_direct:
  "direct_changes (section_changes old_cfg new_cfg s) =
     {k. dict_get (get_direct_settings old_cfg s) k \<noteq> dict_get (get_direct_settings new_cfg s) k}"
  "change_keys (section_changes old_cfg new_cfg s) = direct_changes (section_changes old_cfg new_cfg s)"
proof -
  let ?od = "get_direct_settings old_cfg s" and ?nd = "get_direct_settings new_cfg s"
  let ?ks = "all_keys (resolve_profile_with_source old_cfg s) (resolve_profile_with_source new_cfg s)"
  have "k \<in> set ?ks" if "dict_get ?od k \<noteq> dict_get ?nd k" for k
  proof -
    from that have "dict_get ?od k \<noteq> None \<or> dict_get ?nd k \<noteq> None" by auto
    then have "k \<in> set (dict_keys ?od) \<or> k \<in> set (dict_keys ?nd)"
      using dict_has_get [of ?od k] dict_has_get [of ?nd k] by (auto simp: dict_has_def)
    with direct_keys_resolved [of old_cfg s] direct_keys_resolved [of new_cfg s]
    show ?thesis by (auto simp: all_keys_def)
  qed
  then have eq: "{k \<in> set ?ks. dict_get ?od k \<noteq> dict_get ?nd k} =
      {k. dict_get ?od k \<noteq> dict_get ?nd k}" by auto
  show "direct_changes (section_changes old_cfg new_cfg s) =
     {k. dict_get ?od k \<noteq> dict_get ?nd k}"
    by (simp add: section_changes_def Let_def fold_classify_key eq no_changes_def)
  have "change_keys no_changes = {}" "direct_changes no_changes = {}"
    by (simp_all add: change_keys_def no_changes_def dict_keys_def)
  then show "change_keys (section_changes old_cfg new_cfg s) =
     direct_changes (section_changes old_cfg new_cfg s)"
    by (simp add: section_changes_def Let_def fold_classify_key)
qed

lemma has_changes_iff_direct:
  "has_changes (section_changes old_cfg new_cfg s) \<longleftrightarrow>
     (\<exists>k. k \<noteq> [] \<and> dict_get (get_direct_settings old_cfg s) k \<noteq>
                       dict_get (get_direct_settings new_cfg s) k)"
proof -
  have "has_changes changes \<longleftrightarrow> (\<exists>k \<in> change_keys changes. k \<noteq> [])" for changes
    by (auto simp: has_changes_def any_key_def change_keys_def)
  then show ?thesis by (auto simp: section_changes_direct)
qed

lemma keys_fold_compare_section:
  "set (dict_keys (fold (compare_section old_cfg new_cfg ch) ss acc)) =
     set (dict_keys acc) \<union> {s \<in> set ss. has_changes (section_changes old_cfg new_cfg s)}"
  by (induction ss arbitrary: acc)
     (auto simp: compare_section_def Let_def set_dict_keys_dict_set)

lemma changed_profiles_direct_only:
  "set (dict_keys (changed_profiles (compare_profiles old_cfg new_cfg type_name))) =
     {s \<in> set (get_coreone_sections old_cfg type_name) \<inter> set (get_coreone_sections new_cfg type_name).
        \<exists>k. k \<noteq> [] \<and> dict_get (get_direct_settings old_cfg s) k \<noteq>
                        dict_get (get_direct_settings new_cfg s) k}"
proof -
  have "set (dict_keys (changed_profiles (compare_profiles old_cfg new_cfg type_name))) =
     {s \<in> set (get_coreone_sections old_cfg type_name) \<inter> set (get_coreone_sections new_cfg type_name).
        has_changes (section_changes old_cfg new_cfg s)}"
    unfolding compare_profiles_def Let_def
    by (simp add: keys_fold_compare_section) (auto simp: dict_keys_def)
  then show ?thesis by (simp add: has_changes_iff_direct)
qed

text \<open>
  Claim C3 at a failing input. \<open>P\<close> changes \<open>x\<close> from 1 to 2 and \<open>Q\<close> inherits from \<open>P\<close>
  without fields of its own: the resolved profile of \<open>Q\<close> changes, but \<open>compare_profiles\<close>
  does not include \<open>Q\<close> among the changed profiles. Only \<open>P\<close> is reported, with \<open>x\<close> as
  a direct modification and \<open>Q\<close> in its \<open>affects\<close> set.
\<close>

theorem inherited_only_change_not_reported:
  "resolve_profile generation_old ''print:Q @COREONE'' = [(''x'', ''1'')]
   \<and> resolve_profile generation_new ''print:Q @COREONE'' = [(''x'', ''2'')]
   \<and> get_direct_settings generation_old ''print:Q @COREONE'' = []
   \<and> get_direct_settings generation_new ''print:Q @COREONE'' = []
   \<and> changed_profiles (compare_profiles generation_old generation_new ''print'') =
       [(''print:P @COREONE'',
         \<lparr>added = [], removed = [],
          modified = [(''x'', (''1'', ''2'', Some ''print:P @COREONE'', Some ''print:P @COREONE'', True))],
          direct_changes = {''x''},
          affects = {''print:Q @COREONE''}\<rparr>)]
   \<and> dict_get (changed_profiles (compare_profiles generation_old generation_new ''print''))
        ''print:Q @COREONE'' = None"
  by code_simp

end
